theory Spec2Isabelle
  imports Complex_Main "HOL-Library.Multiset"
begin

section \<open>Data model of \<^verbatim>\<open>dimod/quadratic_model.h\<close>\<close>

text \<open>
  The classes of the header are templates over \<^verbatim>\<open>Bias\<close> and \<^verbatim>\<open>Index\<close>.
  \<^verbatim>\<open>Bias\<close> is the type variable \<open>'b\<close>, ranging over fields of characteristic 0:
  biases are added and multiplied exactly (the header is instantiated at \<^verbatim>\<open>float\<close> and
  \<^verbatim>\<open>double\<close>; rounding is not modelled). \<^verbatim>\<open>Index\<close> (default \<^verbatim>\<open>int\<close>) is \<open>int\<close>,
  without overflow; \<^verbatim>\<open>size_type\<close> positions in a vector are \<open>nat\<close>.

  The header indexes its vectors with \<^verbatim>\<open>operator[]\<close> and dereferences the iterators it
  is given without a check: outside the bounds the behaviour of the source is undefined.
  The value of such a read is unspecified here (\<open>xs ! i\<close>), and a write outside the
  bounds changes nothing (\<open>xs[i := x]\<close>); the theorems below carry the hypotheses that
  keep every index they depend on in range.
\<close>

datatype Vartype = BINARY | SPIN | INTEGER

text \<open>
  The exceptions of the header, each with its \<^verbatim>\<open>what()\<close> text. \<open>length_error\<close> is what
  \<^verbatim>\<open>std::vector::resize\<close> throws for a size above \<^verbatim>\<open>max_size()\<close>, and
  \<open>assertion_failed\<close> is a failed \<^verbatim>\<open>assert\<close>.
\<close>

datatype error =
    out_of_range string
  | logic_error string
  | domain_error string
  | length_error
  | assertion_failed

text \<open>
  \<^verbatim>\<open>Neighborhood\<close>: two parallel vectors, \<^verbatim>\<open>neighbors\<close> and \<^verbatim>\<open>quadratic_biases\<close>.
\<close>

record 'b Neighborhood =
  neighbors :: "int list"
  quadratic_biases :: "'b list"

definition Neighborhood_empty :: "'b Neighborhood" where
  "Neighborhood_empty = \<lparr>neighbors = [], quadratic_biases = []\<rparr>"

definition size_nb :: "'b Neighborhood \<Rightarrow> nat" where
  "size_nb nb = length (neighbors nb)"

text \<open>
  The iterators of a \<^verbatim>\<open>Neighborhood\<close> walk both vectors in step; the sequence they
  yield is the list of \<open>(neighbor, bias)\<close> pairs.
\<close>

definition entries :: "'b Neighborhood \<Rightarrow> (int \<times> 'b) list" where
  "entries nb = zip (neighbors nb) (quadratic_biases nb)"

text \<open>
  \<^verbatim>\<open>std::lower_bound(first, last, v)\<close> of the standard library, as the position it
  returns: the binary search of the library implementations, which halves the range
  \<open>[first, first + len)\<close> and reads the middle element. On a sorted range the position is
  that of the first element not less than \<open>v\<close> (lemma \<open>std_lower_bound_sorted\<close>
  below); on other ranges it is whatever the search arrives at.
\<close>

function lower_bound_search :: "int list \<Rightarrow> int \<Rightarrow> nat \<Rightarrow> nat \<Rightarrow> nat" where
  "lower_bound_search ns v first len =
     (if 0 < len then
        (if ns ! (first + len div 2) < v
         then lower_bound_search ns v (Suc (first + len div 2)) (len - len div 2 - 1)
         else lower_bound_search ns v first (len div 2))
      else first)"
  by pat_completeness auto
termination
  by (relation "measure (\<lambda>(ns, v, first, len). len)") auto

definition std_lower_bound :: "int list \<Rightarrow> int \<Rightarrow> nat" where
  "std_lower_bound ns v = lower_bound_search ns v 0 (length ns)"

definition at_nb :: "'b Neighborhood \<Rightarrow> int \<Rightarrow> error + 'b" where
  "at_nb nb v =
     (let idx = std_lower_bound (neighbors nb) v
      in if idx < length (neighbors nb) \<and> neighbors nb ! idx = v
         then Inr (quadratic_biases nb ! idx)
         else Inl (out_of_range ''given variables have no interaction''))"

definition get_nb :: "'b Neighborhood \<Rightarrow> int \<Rightarrow> 'b \<Rightarrow> 'b" where
  "get_nb nb v val =
     (let idx = std_lower_bound (neighbors nb) v
      in if idx < length (neighbors nb) \<and> neighbors nb ! idx = v
         then quadratic_biases nb ! idx
         else val)"

definition emplace_back :: "'b Neighborhood \<Rightarrow> int \<Rightarrow> 'b \<Rightarrow> 'b Neighborhood" where
  "emplace_back nb v bias =
     nb\<lparr>neighbors := neighbors nb @ [v], quadratic_biases := quadratic_biases nb @ [bias]\<rparr>"

text \<open>\<^verbatim>\<open>erase(v)\<close>: the number of elements removed, and the neighbourhood after.\<close>

definition erase :: "'b Neighborhood \<Rightarrow> int \<Rightarrow> nat \<times> 'b Neighborhood" where
  "erase nb v =
     (let idx = std_lower_bound (neighbors nb) v
      in if idx < length (neighbors nb) \<and> neighbors nb ! idx = v
         then (1, nb\<lparr>neighbors := take idx (neighbors nb) @ drop (Suc idx) (neighbors nb),
                     quadratic_biases := take idx (quadratic_biases nb)
                                         @ drop (Suc idx) (quadratic_biases nb)\<rparr>)
         else (0, nb))"

text \<open>\<^verbatim>\<open>erase(first, last)\<close>, the iterators given as positions.\<close>

definition erase_range :: "'b Neighborhood \<Rightarrow> nat \<Rightarrow> nat \<Rightarrow> 'b Neighborhood" where
  "erase_range nb fst_pos lst_pos =
     nb\<lparr>quadratic_biases := take fst_pos (quadratic_biases nb) @ drop lst_pos (quadratic_biases nb),
        neighbors := take fst_pos (neighbors nb) @ drop lst_pos (neighbors nb)\<rparr>"

definition lower_bound :: "'b Neighborhood \<Rightarrow> int \<Rightarrow> nat" where
  "lower_bound nb v = std_lower_bound (neighbors nb) v"

text \<open>
  \<^verbatim>\<open>utils::zip_sort(control, response)\<close> is declared in \<^verbatim>\<open>dimod/utils.h\<close>, which is
  not among the sources. Every function that reaches it takes it as its first parameter
  \<open>zip_sort\<close>: from the two vectors to the two vectors it leaves.
\<close>

type_synonym 'b zip_sorter = "int list \<Rightarrow> 'b list \<Rightarrow> int list \<times> 'b list"

text \<open>
  Modelled from the spec: what \<^verbatim>\<open>utils::zip_sort\<close> is relied on to do. \<^verbatim>\<open>sort_and_sum\<close>
  "sorts (if not already sorted)" the neighbourhood with it: on vectors of equal length it
  leaves the keys in ascending order and the same (key, bias) pairs, each as often as
  before. The order of the biases of equal keys is left open.
\<close>

definition zip_sort_contract :: "'b zip_sorter \<Rightarrow> bool" where
  "zip_sort_contract zip_sort =
     (\<forall>control response.
        length control = length response \<longrightarrow>
        (case zip_sort control response of
           (control', response') \<Rightarrow>
             length control' = length control \<and> length response' = length control
             \<and> sorted control'
             \<and> mset (zip control' response') = mset (zip control response)))"

text \<open>
  Modelled from the spec: one \<^verbatim>\<open>utils::zip_sort\<close>, the stable sort of the pairs by key,
  used where a concrete sort is needed.
\<close>

definition zip_sort_stable :: "'b zip_sorter" where
  "zip_sort_stable control response =
     (let ps = sort_key fst (zip control response) in (map fst ps, map snd ps))"

text \<open>\<^verbatim>\<open>std::is_sorted\<close>: no element is less than its predecessor.\<close>

fun is_sorted :: "int list \<Rightarrow> bool" where
  "is_sorted [] = True"
| "is_sorted [x] = True"
| "is_sorted (x # y # xs) = (if y < x then False else is_sorted (y # xs))"

text \<open>
  The first loop of \<^verbatim>\<open>sort_and_sum\<close>: \<open>i\<close> and \<open>j\<close> advance together until two
  consecutive keys are equal or \<open>j\<close> reaches the end.
\<close>

function find_duplicate :: "int list \<Rightarrow> nat \<Rightarrow> nat \<Rightarrow> nat \<times> nat" where
  "find_duplicate ns i j =
     (if j < length ns then
        (if ns ! i = ns ! j then (i, j) else find_duplicate ns (Suc i) (Suc j))
      else (i, j))"
  by pat_completeness auto
termination
  by (relation "measure (\<lambda>(ns, i, j). length ns - j)") auto

text \<open>
  The second loop: a duplicate of key \<open>i\<close> at \<open>j\<close> adds its bias to the one at \<open>i\<close>;
  any other key moves down to position \<open>i + 1\<close>.
\<close>

function sum_duplicates :: "'b::field_char_0 Neighborhood \<Rightarrow> nat \<Rightarrow> nat \<Rightarrow> nat \<times> 'b Neighborhood" where
  "sum_duplicates nb i j =
     (if j < length (neighbors nb) then
        (if neighbors nb ! i = neighbors nb ! j
         then sum_duplicates
                (nb\<lparr>quadratic_biases := (quadratic_biases nb)
                       [i := quadratic_biases nb ! i + quadratic_biases nb ! j]\<rparr>)
                i (Suc j)
         else sum_duplicates
                (nb\<lparr>neighbors := (neighbors nb)[Suc i := neighbors nb ! j],
                    quadratic_biases := (quadratic_biases nb)[Suc i := quadratic_biases nb ! j]\<rparr>)
                (Suc i) (Suc j))
      else (i, nb))"
  by pat_completeness auto
termination
  by (relation "measure (\<lambda>(nb, i, j). length (neighbors nb) - j)") auto

text \<open>
  \<^verbatim>\<open>sort_and_sum\<close>, in its two parts: the sort, and the removal of duplicates
  (\<open>sum_duplicate_keys\<close>: both loops and the final \<^verbatim>\<open>resize\<close>).
\<close>

definition sum_duplicate_keys :: "'b::field_char_0 Neighborhood \<Rightarrow> 'b Neighborhood" where
  "sum_duplicate_keys nb =
     (case find_duplicate (neighbors nb) 0 1 of
        (i, j) \<Rightarrow>
          if j < length (neighbors nb) then
            (case sum_duplicates nb i j of
               (i', nb') \<Rightarrow> nb'\<lparr>neighbors := take (Suc i') (neighbors nb'),
                                 quadratic_biases := take (Suc i') (quadratic_biases nb')\<rparr>)
          else nb)"

definition sort_and_sum :: "'b zip_sorter \<Rightarrow> 'b::field_char_0 Neighborhood \<Rightarrow> 'b Neighborhood" where
  "sort_and_sum zip_sort nb =
     sum_duplicate_keys
       (if is_sorted (neighbors nb) then nb
        else (case zip_sort (neighbors nb) (quadratic_biases nb) of
                (ns, qs) \<Rightarrow> nb\<lparr>neighbors := ns, quadratic_biases := qs\<rparr>))"

text \<open>
  \<^verbatim>\<open>operator[]\<close>: the position of \<open>v\<close>'s bias, and the neighbourhood with a zero bias
  inserted for \<open>v\<close> where it was absent. The caller writes through the returned position.
\<close>

definition subscript :: "'b::field_char_0 Neighborhood \<Rightarrow> int \<Rightarrow> nat \<times> 'b Neighborhood" where
  "subscript nb v =
     (let idx = std_lower_bound (neighbors nb) v
      in if idx = length (neighbors nb) then
           (idx, nb\<lparr>neighbors := take idx (neighbors nb) @ v # drop idx (neighbors nb),
                     quadratic_biases := take idx (quadratic_biases nb) @ 0
                                         # drop idx (quadratic_biases nb)\<rparr>)
         else if neighbors nb ! idx = v then (idx, nb)
         else
           (idx, nb\<lparr>neighbors := take idx (neighbors nb) @ v # drop idx (neighbors nb),
                     quadratic_biases := take idx (quadratic_biases nb) @ 0
                                         # drop idx (quadratic_biases nb)\<rparr>))"

section \<open>\<^verbatim>\<open>QuadraticModelBase\<close> and \<^verbatim>\<open>BinaryQuadraticModel\<close>\<close>

text \<open>
  One record holds the fields of \<^verbatim>\<open>QuadraticModelBase\<close> (\<^verbatim>\<open>linear_biases_\<close>,
  \<^verbatim>\<open>adj_\<close>, \<^verbatim>\<open>offset_\<close>) and the field \<^verbatim>\<open>vartype_\<close> that the derived class
  \<^verbatim>\<open>BinaryQuadraticModel\<close> adds. The field names lose the trailing underscore, which
  an identifier cannot end with here.
\<close>

record 'b BinaryQuadraticModel =
  linear_biases :: "'b list"
  adj :: "'b Neighborhood list"
  offset :: 'b
  vartype :: Vartype

text \<open>
  A mutating member function returns the model it leaves behind; when it throws, the
  exception comes with the model as it is at the \<^verbatim>\<open>throw\<close>.
\<close>

type_synonym 'b mutation = "(error \<times> 'b BinaryQuadraticModel) + 'b BinaryQuadraticModel"

text \<open>The constructors \<^verbatim>\<open>BinaryQuadraticModel()\<close> and \<^verbatim>\<open>BinaryQuadraticModel(vartype)\<close>.\<close>

definition BinaryQuadraticModel_of :: "Vartype \<Rightarrow> 'b::field_char_0 BinaryQuadraticModel" where
  "BinaryQuadraticModel_of vt =
     \<lparr>linear_biases = [], adj = [], offset = 0, vartype = vt\<rparr>"

definition BinaryQuadraticModel_default :: "'b::field_char_0 BinaryQuadraticModel" where
  "BinaryQuadraticModel_default = BinaryQuadraticModel_of BINARY"

definition is_linear :: "'b BinaryQuadraticModel \<Rightarrow> bool" where
  "is_linear m = list_all (\<lambda>nb. size_nb nb = 0) (adj m)"

definition num_variables :: "'b BinaryQuadraticModel \<Rightarrow> nat" where
  "num_variables m = length (linear_biases m)"

definition num_interactions :: "'b BinaryQuadraticModel \<Rightarrow> nat" where
  "num_interactions m = fold (\<lambda>nb count. count + size_nb nb) (adj m) 0 div 2"

definition num_interactions_of :: "'b BinaryQuadraticModel \<Rightarrow> int \<Rightarrow> nat" where
  "num_interactions_of m v = size_nb (adj m ! nat v)"

definition linear :: "'b BinaryQuadraticModel \<Rightarrow> int \<Rightarrow> 'b" where
  "linear m v = linear_biases m ! nat v"

definition quadratic :: "'b::field_char_0 BinaryQuadraticModel \<Rightarrow> int \<Rightarrow> int \<Rightarrow> 'b" where
  "quadratic m u v = get_nb (adj m ! nat u) v 0"

definition quadratic_at :: "'b BinaryQuadraticModel \<Rightarrow> int \<Rightarrow> int \<Rightarrow> error + 'b" where
  "quadratic_at m u v = at_nb (adj m ! nat u) v"

text \<open>
  The accessors \<^verbatim>\<open>offset()\<close> and \<^verbatim>\<open>vartype()\<close> return the fields; they are the
  selectors \<open>offset\<close> and \<open>vartype\<close> of the record.
\<close>

text \<open>
  \<^verbatim>\<open>vartype(index_type v)\<close>. The result type has room for an exception, as the call
  could throw one; the body is \<^verbatim>\<open>return vartype_;\<close>.
\<close>

definition vartype_at :: "'b BinaryQuadraticModel \<Rightarrow> int \<Rightarrow> error + Vartype" where
  "vartype_at m v = Inr (vartype m)"

definition remove_interaction ::
  "'b BinaryQuadraticModel \<Rightarrow> int \<Rightarrow> int \<Rightarrow> bool \<times> 'b BinaryQuadraticModel" where
  "remove_interaction m u v =
     (case erase (adj m ! nat u) v of
        (c, nb) \<Rightarrow>
          if c \<noteq> 0 then
            (let m1 = m\<lparr>adj := (adj m)[nat u := nb]\<rparr>
             in case erase (adj m1 ! nat v) u of
                  (c', nb') \<Rightarrow> (c' \<noteq> 0, m1\<lparr>adj := (adj m1)[nat v := nb']\<rparr>))
          else (False, m))"

text \<open>
  \<^verbatim>\<open>energy\<close>. The sample is read at \<open>u\<close> and at the neighbours of \<open>u\<close>; the header
  leaves the behaviour undefined when the sample is not \<^verbatim>\<open>num_variables()\<close> long. The
  inner loop stops at the end of the neighbourhood or at the first neighbour that is not
  less than \<open>u\<close> (the comparison is made in \<^verbatim>\<open>size_type\<close>, where a negative neighbour
  is not less than \<open>u\<close>).
\<close>

definition energy_neighborhood ::
  "'b::field_char_0 list \<Rightarrow> nat \<Rightarrow> 'b Neighborhood \<Rightarrow> 'b \<Rightarrow> 'b" where
  "energy_neighborhood sample u nb en =
     fold (\<lambda>(v, bias) en. en + sample ! u * sample ! nat v * bias)
          (takeWhile (\<lambda>(v, bias). 0 \<le> v \<and> v < int u) (entries nb)) en"

definition energy :: "'b::field_char_0 BinaryQuadraticModel \<Rightarrow> 'b list \<Rightarrow> 'b" where
  "energy m sample =
     fold (\<lambda>u en. energy_neighborhood sample u (adj m ! u)
                     (en + sample ! u * linear m (int u)))
          [0..<num_variables m] (offset m)"

text \<open>\<^verbatim>\<open>std::vector::resize(n)\<close> with value-initialised new elements \<open>d\<close>.\<close>

definition vector_resize :: "'a list \<Rightarrow> nat \<Rightarrow> 'a \<Rightarrow> 'a list" where
  "vector_resize xs n d = take n xs @ replicate (n - length xs) d"

text \<open>
  \<^verbatim>\<open>resize(index_type n)\<close>. A negative \<open>n\<close> skips the trimming loop and reaches
  \<^verbatim>\<open>linear_biases_.resize(n)\<close> as a size above \<^verbatim>\<open>max_size()\<close>.
\<close>

definition resize :: "'b::field_char_0 BinaryQuadraticModel \<Rightarrow> int \<Rightarrow> 'b mutation" where
  "resize m n =
     (let m1 = (if n < int (num_variables m) then
                  fold (\<lambda>v m. m\<lparr>adj := (adj m)
                          [v := erase_range (adj m ! v) (lower_bound (adj m ! v) n)
                                  (size_nb (adj m ! v))]\<rparr>)
                       [0..<nat n] m
                else m)
      in if n < 0 then Inl (length_error, m1)
         else Inr (m1\<lparr>linear_biases := vector_resize (linear_biases m1) (nat n) 0,
                       adj := vector_resize (adj m1) (nat n) Neighborhood_empty\<rparr>))"

text \<open>The constructor \<^verbatim>\<open>BinaryQuadraticModel(n, vartype)\<close>.\<close>

definition BinaryQuadraticModel_sized ::
  "int \<Rightarrow> Vartype \<Rightarrow> 'b::field_char_0 mutation" where
  "BinaryQuadraticModel_sized n vt = resize (BinaryQuadraticModel_of vt) n"

text \<open>\<^verbatim>\<open>adj_[u][v] += bias\<close> and \<^verbatim>\<open>adj_[u][v] = bias\<close>.\<close>

definition adj_add ::
  "'b::field_char_0 BinaryQuadraticModel \<Rightarrow> int \<Rightarrow> int \<Rightarrow> 'b \<Rightarrow> 'b BinaryQuadraticModel" where
  "adj_add m u v bias =
     (case subscript (adj m ! nat u) v of
        (idx, nb) \<Rightarrow>
          m\<lparr>adj := (adj m)
               [nat u := nb\<lparr>quadratic_biases := (quadratic_biases nb)
                              [idx := quadratic_biases nb ! idx + bias]\<rparr>]\<rparr>)"

definition adj_assign ::
  "'b::field_char_0 BinaryQuadraticModel \<Rightarrow> int \<Rightarrow> int \<Rightarrow> 'b \<Rightarrow> 'b BinaryQuadraticModel" where
  "adj_assign m u v bias =
     (case subscript (adj m ! nat u) v of
        (idx, nb) \<Rightarrow>
          m\<lparr>adj := (adj m)
               [nat u := nb\<lparr>quadratic_biases := (quadratic_biases nb)[idx := bias]\<rparr>]\<rparr>)"

definition add_quadratic ::
  "'b::field_char_0 BinaryQuadraticModel \<Rightarrow> int \<Rightarrow> int \<Rightarrow> 'b \<Rightarrow> 'b mutation" where
  "add_quadratic m u v bias =
     (if u = v then
        (if vartype m = BINARY then
           Inr (m\<lparr>linear_biases := (linear_biases m)[nat u := linear_biases m ! nat u + bias]\<rparr>)
         else if vartype m = SPIN then
           Inr (m\<lparr>offset := offset m + bias\<rparr>)
         else Inl (logic_error ''unknown vartype'', m))
      else Inr (adj_add (adj_add m u v bias) v u bias))"

definition set_quadratic ::
  "'b::field_char_0 BinaryQuadraticModel \<Rightarrow> int \<Rightarrow> int \<Rightarrow> 'b \<Rightarrow> 'b mutation" where
  "set_quadratic m u v bias =
     (if u = v then
        Inl (domain_error ''Cannot set the quadratic bias of a variable with itself'', m)
      else Inr (adj_assign (adj_assign m u v bias) v u bias))"

text \<open>\<^verbatim>\<open>adj_[u].emplace_back(v, bias)\<close> on the model.\<close>

definition adj_emplace_back ::
  "'b BinaryQuadraticModel \<Rightarrow> nat \<Rightarrow> int \<Rightarrow> 'b \<Rightarrow> 'b BinaryQuadraticModel" where
  "adj_emplace_back m u v bias = m\<lparr>adj := (adj m)[u := emplace_back (adj m ! u) v bias]\<rparr>"

text \<open>
  \<^verbatim>\<open>add_quadratic(dense, num_variables)\<close>. \<open>dense\<close> is the array behind the pointer,
  read at \<open>u * n + v\<close>. The \<^verbatim>\<open>assert\<close> compares in \<^verbatim>\<open>size_t\<close>, where a negative
  \<open>n\<close> is above every size.
\<close>

definition dense_off_diagonal ::
  "'b::field_char_0 list \<Rightarrow> nat \<Rightarrow> 'b BinaryQuadraticModel \<Rightarrow> 'b BinaryQuadraticModel" where
  "dense_off_diagonal dense n m =
     fold (\<lambda>u m.
             fold (\<lambda>v m.
                     (let qbias = dense ! (u * n + v) + dense ! (v * n + u)
                      in if qbias \<noteq> 0
                         then adj_emplace_back (adj_emplace_back m u (int v) qbias) v (int u) qbias
                         else m))
                  [Suc u..<n] m)
          [0..<n] m"

definition add_quadratic_dense ::
  "'b::field_char_0 BinaryQuadraticModel \<Rightarrow> 'b list \<Rightarrow> int \<Rightarrow> 'b mutation" where
  "add_quadratic_dense m dense n =
     (if n < 0 then Inl (assertion_failed, m)
      else if num_variables m < nat n then Inl (assertion_failed, m)
      else
        (let sort_needed = (\<not> is_linear m);
             m1 = dense_off_diagonal dense (nat n) m
         in if sort_needed then Inl (logic_error ''not implemented yet'', m1)
            else if vartype m1 = SPIN then
              Inr (fold (\<lambda>v m. m\<lparr>offset := offset m + dense ! (v * (nat n + 1))\<rparr>)
                        [0..<nat n] m1)
            else if vartype m1 = BINARY then
              Inr (fold (\<lambda>v m. m\<lparr>linear_biases := (linear_biases m)
                                   [v := linear_biases m ! v + dense ! (v * (nat n + 1))]\<rparr>)
                        [0..<nat n] m1)
            else Inl (logic_error ''bad vartype'', m1)))"

text \<open>The constructor \<^verbatim>\<open>BinaryQuadraticModel(dense, num_variables, vartype)\<close>.\<close>

definition BinaryQuadraticModel_dense ::
  "'b::field_char_0 list \<Rightarrow> int \<Rightarrow> Vartype \<Rightarrow> 'b mutation" where
  "BinaryQuadraticModel_dense dense n vt =
     (case BinaryQuadraticModel_sized n vt of
        Inl e \<Rightarrow> Inl e
      | Inr m \<Rightarrow> add_quadratic_dense m dense n)"

text \<open>\<^verbatim>\<open>*std::max_element(first, last)\<close> on a non-empty range.\<close>

definition max_element :: "int list \<Rightarrow> int" where
  "max_element xs = fold max (tl xs) (hd xs)"

text \<open>
  \<^verbatim>\<open>add_quadratic(row_iterator, col_iterator, bias_iterator, length)\<close>. The three
  iterators are the lists they point into. \<^verbatim>\<open>(size_t)max_label >= num_variables()\<close>
  holds for every negative \<open>max_label\<close>. \<^verbatim>\<open>reserve\<close> changes no contents and is left
  out.
\<close>

definition coo_counts :: "int list \<Rightarrow> int list \<Rightarrow> nat \<Rightarrow> nat \<Rightarrow> nat list" where
  "coo_counts rows cols len n =
     fold (\<lambda>i counts.
             if rows ! i \<noteq> cols ! i then
               (let c1 = counts[nat (rows ! i) := counts ! nat (rows ! i) + 1]
                in c1[nat (cols ! i) := c1 ! nat (cols ! i) + 1])
             else counts)
          [0..<len] (replicate n 0)"

definition coo_insert ::
  "int list \<Rightarrow> int list \<Rightarrow> 'b::field_char_0 list \<Rightarrow> nat \<Rightarrow> 'b mutation \<Rightarrow> 'b mutation" where
  "coo_insert rows cols biases i r =
     (case r of
        Inl e \<Rightarrow> Inl e
      | Inr m \<Rightarrow>
          if rows ! i = cols ! i then add_quadratic m (rows ! i) (cols ! i) (biases ! i)
          else Inr (adj_emplace_back
                      (adj_emplace_back m (nat (rows ! i)) (cols ! i) (biases ! i))
                      (nat (cols ! i)) (rows ! i) (biases ! i)))"

definition add_quadratic_coo ::
  "'b zip_sorter \<Rightarrow> 'b::field_char_0 BinaryQuadraticModel \<Rightarrow> int list \<Rightarrow> int list
     \<Rightarrow> 'b list \<Rightarrow> int \<Rightarrow> 'b mutation" where
  "add_quadratic_coo zip_sort m rows cols biases len =
     (let r0 = (if 0 < len then
                  (let max_label = max (max_element (take (nat len) rows))
                                       (max_element (take (nat len) cols))
                   in if max_label < 0 \<or> num_variables m \<le> nat max_label
                      then resize m (max_label + 1) else Inr m)
                else if len < 0 then Inl (out_of_range ''length must be positive'', m)
                else Inr m)
      in case r0 of
           Inl e \<Rightarrow> Inl e
         | Inr m1 \<Rightarrow>
             (let counts = coo_counts rows cols (nat len) (num_variables m1)
              in case fold (coo_insert rows cols biases) [0..<nat len] (Inr m1) of
                   Inl e \<Rightarrow> Inl e
                 | Inr m2 \<Rightarrow>
                     Inr (fold (\<lambda>i m. if 0 < counts ! i
                                       then m\<lparr>adj := (adj m)
                                              [i := sort_and_sum zip_sort (adj m ! i)]\<rparr>
                                       else m)
                               [0..<length counts] m2)))"

text \<open>
  \<^verbatim>\<open>change_vartype\<close>. The five multipliers are a record; the loop body for variable
  \<open>ui\<close> scales its linear bias, then visits the positions of its neighbourhood in order.
\<close>

record 'b multipliers =
  lin_mp :: 'b
  lin_offset_mp :: 'b
  quad_mp :: 'b
  lin_quad_mp :: 'b
  quad_offset_mp :: 'b

definition to_binary_mp :: "'b::field_char_0 multipliers" where
  "to_binary_mp = \<lparr>lin_mp = 2, lin_offset_mp = -1, quad_mp = 4, lin_quad_mp = -2,
                   quad_offset_mp = 1/2\<rparr>"

definition to_spin_mp :: "'b::field_char_0 multipliers" where
  "to_spin_mp = \<lparr>lin_mp = 1/2, lin_offset_mp = 1/2, quad_mp = 1/4, lin_quad_mp = 1/4,
                 quad_offset_mp = 1/8\<rparr>"

definition change_entry ::
  "'b::field_char_0 multipliers \<Rightarrow> nat \<Rightarrow> nat \<Rightarrow> 'b BinaryQuadraticModel
     \<Rightarrow> 'b BinaryQuadraticModel" where
  "change_entry mp ui k m =
     (let nb = adj m ! ui;
          qbias = quadratic_biases nb ! k
      in m\<lparr>adj := (adj m)
              [ui := nb\<lparr>quadratic_biases := (quadratic_biases nb)[k := qbias * quad_mp mp]\<rparr>],
           linear_biases := (linear_biases m)
              [ui := linear_biases m ! ui + lin_quad_mp mp * qbias],
           offset := offset m + quad_offset_mp mp * qbias\<rparr>)"

definition change_variable ::
  "'b::field_char_0 multipliers \<Rightarrow> nat \<Rightarrow> 'b BinaryQuadraticModel \<Rightarrow> 'b BinaryQuadraticModel" where
  "change_variable mp ui m =
     (let lbias = linear_biases m ! ui;
          m1 = m\<lparr>linear_biases := (linear_biases m)[ui := linear_biases m ! ui * lin_mp mp],
                 offset := offset m + lin_offset_mp mp * lbias\<rparr>
      in fold (change_entry mp ui) [0..<size_nb (adj m1 ! ui)] m1)"

definition change_vartype ::
  "'b::field_char_0 BinaryQuadraticModel \<Rightarrow> Vartype \<Rightarrow> 'b mutation" where
  "change_vartype m vt =
     (if vt = vartype m then Inr m
      else if vt = BINARY then
        Inr ((fold (change_variable to_binary_mp) [0..<num_variables m] m)\<lparr>vartype := vt\<rparr>)
      else if vt = SPIN then
        Inr ((fold (change_variable to_spin_mp) [0..<num_variables m] m)\<lparr>vartype := vt\<rparr>)
      else Inl (logic_error ''unexpected vartype'', m))"

text \<open>
  \<^verbatim>\<open>add_bqm(bqm)\<close>. With different vartypes the source converts a copy of \<open>bqm\<close> and
  calls itself on the copy, which then has the vartype of the model: \<open>add_bqm_same\<close> is
  the rest of the body. An exception of \<^verbatim>\<open>change_vartype\<close> leaves the model as it was.
\<close>

definition add_bqm_row ::
  "'b zip_sorter \<Rightarrow> 'b::field_char_0 BinaryQuadraticModel \<Rightarrow> nat \<Rightarrow> 'b BinaryQuadraticModel
     \<Rightarrow> 'b BinaryQuadraticModel" where
  "add_bqm_row zip_sort bqm v m =
     (if size_nb (adj bqm ! v) = 0 then m
      else
        (let m1 = fold (\<lambda>(w, bias) m. adj_emplace_back m v w bias) (entries (adj bqm ! v)) m
         in m1\<lparr>adj := (adj m1)[v := sort_and_sum zip_sort (adj m1 ! v)]\<rparr>))"

definition add_bqm_same ::
  "'b zip_sorter \<Rightarrow> 'b::field_char_0 BinaryQuadraticModel \<Rightarrow> 'b BinaryQuadraticModel
     \<Rightarrow> 'b mutation" where
  "add_bqm_same zip_sort m bqm =
     (let m1 = m\<lparr>offset := offset m + offset bqm\<rparr>
      in case (if num_variables m1 < num_variables bqm
               then resize m1 (int (num_variables bqm)) else Inr m1) of
           Inl e \<Rightarrow> Inl e
         | Inr m2 \<Rightarrow>
             (let m3 = fold (\<lambda>v m. m\<lparr>linear_biases := (linear_biases m)
                                      [v := linear_biases m ! v + linear bqm (int v)]\<rparr>)
                            [0..<num_variables bqm] m2
              in Inr (fold (add_bqm_row zip_sort bqm) [0..<num_variables bqm] m3)))"

definition add_bqm ::
  "'b zip_sorter \<Rightarrow> 'b::field_char_0 BinaryQuadraticModel \<Rightarrow> 'b BinaryQuadraticModel
     \<Rightarrow> 'b mutation" where
  "add_bqm zip_sort m bqm =
     (if vartype bqm \<noteq> vartype m then
        (case change_vartype bqm (vartype m) of
           Inl (e, bqm_copy) \<Rightarrow> Inl (e, m)
         | Inr bqm_copy \<Rightarrow> add_bqm_same zip_sort m bqm_copy)
      else add_bqm_same zip_sort m bqm)"

text \<open>
  \<^verbatim>\<open>add_bqm(bqm, mapping)\<close>. \<^verbatim>\<open>size > num_variables()\<close> compares in \<^verbatim>\<open>size_t\<close>,
  where a negative \<open>size\<close> is above every size.
\<close>

definition add_bqm_mapping_variable ::
  "'b::field_char_0 BinaryQuadraticModel \<Rightarrow> int list \<Rightarrow> nat \<Rightarrow> 'b BinaryQuadraticModel
     \<Rightarrow> 'b BinaryQuadraticModel" where
  "add_bqm_mapping_variable bqm mapping old_u m =
     (let new_u = mapping ! old_u;
          m1 = m\<lparr>linear_biases := (linear_biases m)
                   [nat new_u := linear_biases m ! nat new_u + linear bqm (int old_u)]\<rparr>
      in fold (\<lambda>(w, bias) m. adj_emplace_back m (nat new_u) (mapping ! nat w) bias)
              (entries (adj bqm ! old_u)) m1)"

definition add_bqm_mapping_same ::
  "'b::field_char_0 BinaryQuadraticModel \<Rightarrow> 'b BinaryQuadraticModel \<Rightarrow> int list
     \<Rightarrow> 'b mutation" where
  "add_bqm_mapping_same m bqm mapping =
     (if length mapping \<noteq> num_variables bqm then
        Inl (logic_error ''bqm and mapping must have the same length'', m)
      else
        (let size = max_element mapping + 1
         in case (if size < 0 \<or> int (num_variables m) < size then resize m size else Inr m) of
              Inl e \<Rightarrow> Inl e
            | Inr m1 \<Rightarrow>
                (let m2 = m1\<lparr>offset := offset m1 + offset bqm\<rparr>
                 in Inr (fold (add_bqm_mapping_variable bqm mapping)
                              [0..<num_variables bqm] m2))))"

definition add_bqm_mapping ::
  "'b::field_char_0 BinaryQuadraticModel \<Rightarrow> 'b BinaryQuadraticModel \<Rightarrow> int list
     \<Rightarrow> 'b mutation" where
  "add_bqm_mapping m bqm mapping =
     (if vartype bqm \<noteq> vartype m then
        (case change_vartype bqm (vartype m) of
           Inl (e, bqm_copy) \<Rightarrow> Inl (e, m)
         | Inr bqm_copy \<Rightarrow> add_bqm_mapping_same m bqm_copy mapping)
      else add_bqm_mapping_same m bqm mapping)"

text \<open>Sequencing of mutating calls: the second runs on the model the first returns.\<close>

definition and_then ::
  "'b mutation \<Rightarrow> ('b BinaryQuadraticModel \<Rightarrow> 'b mutation) \<Rightarrow> 'b mutation" where
  "and_then r f = (case r of Inl e \<Rightarrow> Inl e | Inr m \<Rightarrow> f m)"

text \<open>A list of calls made one after the other, as a test does.\<close>

definition in_sequence ::
  "('b BinaryQuadraticModel \<Rightarrow> 'b mutation) list \<Rightarrow> 'b mutation \<Rightarrow> 'b mutation" where
  "in_sequence calls r = fold (\<lambda>call r. and_then r call) calls r"

section \<open>Invariants of the data model\<close>

text \<open>
  The vectors of a model have matching sizes: one neighbourhood per linear bias, and in
  every neighbourhood one bias per neighbour. Every constructor and member function keeps
  this; the fields are not accessible from outside the classes.
\<close>

definition matching_sizes :: "'b BinaryQuadraticModel \<Rightarrow> bool" where
  "matching_sizes m =
     (length (adj m) = length (linear_biases m)
      \<and> list_all (\<lambda>nb. length (quadratic_biases nb) = length (neighbors nb)) (adj m))"

text \<open>Every neighbourhood's keys are strictly ascending (sorted, no duplicates).\<close>

definition sorted_unique :: "'b BinaryQuadraticModel \<Rightarrow> bool" where
  "sorted_unique m = list_all (\<lambda>nb. sorted_wrt (<) (neighbors nb)) (adj m)"

text \<open>
  Symmetric storage: when \<open>v\<close> is in \<open>u\<close>'s neighbourhood with bias \<open>b\<close>, then \<open>v\<close> is a
  variable and \<open>u\<close> is in \<open>v\<close>'s neighbourhood with the same bias \<open>b\<close>.
\<close>

definition symmetric_storage :: "'b BinaryQuadraticModel \<Rightarrow> bool" where
  "symmetric_storage m =
     list_all (\<lambda>u. list_all (\<lambda>(v, b). 0 \<le> v \<and> nat v < length (adj m)
                                      \<and> (int u, b) \<in> set (entries (adj m ! nat v)))
                             (entries (adj m ! u)))
              [0..<length (adj m)]"

text \<open>An interaction is between two distinct variables: no variable is its own neighbour.\<close>

definition no_self_loops :: "'b BinaryQuadraticModel \<Rightarrow> bool" where
  "no_self_loops m =
     list_all (\<lambda>u. int u \<notin> set (neighbors (adj m ! u))) [0..<length (adj m)]"

section \<open>The models of the test suite\<close>

text \<open>
  \<open>bqm0\<close> and \<open>bqm1\<close> are the models of the scenario "BQMs can be combined" (with
  vartype \<^verbatim>\<open>BINARY\<close>), \<open>bqm5\<close> is the model "with five variables, two interactions and
  an offset"; the lemmas \<open>bqm0_built\<close>, \<open>bqm1_built\<close> and \<open>bqm5_built\<close> below run the
  calls of the tests that build them.
\<close>

definition bqm0 :: "rat BinaryQuadraticModel" where
  "bqm0 = \<lparr>linear_biases = [0, 0, -1],
           adj = [\<lparr>neighbors = [1, 2], quadratic_biases = [3/2, -2]\<rparr>,
                  \<lparr>neighbors = [0, 2], quadratic_biases = [3/2, 7]\<rparr>,
                  \<lparr>neighbors = [0, 1], quadratic_biases = [-2, 7]\<rparr>],
           offset = -4, vartype = BINARY\<rparr>"

definition bqm1 :: "rat BinaryQuadraticModel" where
  "bqm1 = \<lparr>linear_biases = [1, -13/4, 2, 3, -9/2],
           adj = [\<lparr>neighbors = [1, 3], quadratic_biases = [28/5, -1]\<rparr>,
                  \<lparr>neighbors = [0, 2], quadratic_biases = [28/5, 8/5]\<rparr>,
                  \<lparr>neighbors = [1], quadratic_biases = [8/5]\<rparr>,
                  \<lparr>neighbors = [0, 4], quadratic_biases = [-1, -25]\<rparr>,
                  \<lparr>neighbors = [3], quadratic_biases = [-25]\<rparr>],
           offset = -19/5, vartype = BINARY\<rparr>"

definition bqm5 :: "Vartype \<Rightarrow> rat BinaryQuadraticModel" where
  "bqm5 vt = \<lparr>linear_biases = [1, -13/4, 0, 3, -9/2],
              adj = [\<lparr>neighbors = [1, 3], quadratic_biases = [8/5, -1]\<rparr>,
                     \<lparr>neighbors = [0, 3], quadratic_biases = [8/5, 28/5]\<rparr>,
                     \<lparr>neighbors = [], quadratic_biases = []\<rparr>,
                     \<lparr>neighbors = [0, 1], quadratic_biases = [-1, 28/5]\<rparr>,
                     \<lparr>neighbors = [], quadratic_biases = []\<rparr>],
              offset = -19/5, vartype = vt\<rparr>"

text \<open>
  \<open>bqm1_mapped\<close> is the model the call \<^verbatim>\<open>bqm1.add_bqm(bqm0, mapping)\<close> of the test
  "the update involves a mapping" leaves, with \<open>mapping = {7, 2, 0}\<close> (lemma
  \<open>bqm1_mapped_built\<close> below), and \<open>bqm1_mapped_spin\<close> is what
  \<^verbatim>\<open>change_vartype(SPIN)\<close> makes of it.
\<close>

definition bqm1_mapped :: "rat BinaryQuadraticModel" where
  "bqm1_mapped =
     \<lparr>linear_biases = [0, -13/4, 2, 3, -9/2, 0, 0, 0],
      adj = [\<lparr>neighbors = [1, 3, 7, 2], quadratic_biases = [28/5, -1, -2, 7]\<rparr>,
             \<lparr>neighbors = [0, 2], quadratic_biases = [28/5, 8/5]\<rparr>,
             \<lparr>neighbors = [1, 7, 0], quadratic_biases = [8/5, 3/2, 7]\<rparr>,
             \<lparr>neighbors = [0, 4], quadratic_biases = [-1, -25]\<rparr>,
             \<lparr>neighbors = [3], quadratic_biases = [-25]\<rparr>,
             \<lparr>neighbors = [], quadratic_biases = []\<rparr>,
             \<lparr>neighbors = [], quadratic_biases = []\<rparr>,
             \<lparr>neighbors = [2, 0], quadratic_biases = [3/2, -2]\<rparr>],
      offset = -39/5, vartype = BINARY\<rparr>"

definition bqm1_mapped_spin :: "rat BinaryQuadraticModel" where
  "bqm1_mapped_spin =
     \<lparr>linear_biases = [12/5, 7/40, 141/40, -5, -17/2, 0, 0, -1/8],
      adj = [\<lparr>neighbors = [1, 3, 7, 2], quadratic_biases = [7/5, -1/4, -1/2, 7/4]\<rparr>,
             \<lparr>neighbors = [0, 2], quadratic_biases = [7/5, 2/5]\<rparr>,
             \<lparr>neighbors = [1, 7, 0], quadratic_biases = [2/5, 3/8, 7/4]\<rparr>,
             \<lparr>neighbors = [0, 4], quadratic_biases = [-1/4, -25/4]\<rparr>,
             \<lparr>neighbors = [3], quadratic_biases = [-25/4]\<rparr>,
             \<lparr>neighbors = [], quadratic_biases = []\<rparr>,
             \<lparr>neighbors = [], quadratic_biases = []\<rparr>,
             \<lparr>neighbors = [2, 0], quadratic_biases = [3/8, -1/2]\<rparr>],
      offset = -49/4, vartype = SPIN\<rparr>"

text \<open>\<^verbatim>\<open>bqm.linear(v) = bias\<close> and \<^verbatim>\<open>bqm.offset() = bias\<close>, writes through the references.\<close>

definition linear_assign :: "'b BinaryQuadraticModel \<Rightarrow> int \<Rightarrow> 'b \<Rightarrow> 'b mutation" where
  "linear_assign m v bias = Inr (m\<lparr>linear_biases := (linear_biases m)[nat v := bias]\<rparr>)"

definition offset_assign :: "'b BinaryQuadraticModel \<Rightarrow> 'b \<Rightarrow> 'b mutation" where
  "offset_assign m bias = Inr (m\<lparr>offset := bias\<rparr>)"

section \<open>The effect of \<^verbatim>\<open>change_vartype\<close> in closed form\<close>

text \<open>
  What the loops of \<^verbatim>\<open>change_vartype\<close> compute, stated without loops; the lemma
  \<open>change_variables_converted\<close> below proves that the loops compute it. Every bias of
  a neighbourhood is scaled; the linear bias of \<open>u\<close> and the offset take a share of the
  old linear bias and of the sum of the old biases of \<open>u\<close>'s neighbourhood.
\<close>

definition scale_row :: "'b::field_char_0 \<Rightarrow> 'b Neighborhood \<Rightarrow> 'b Neighborhood" where
  "scale_row c nb = nb\<lparr>quadratic_biases := map (\<lambda>q. q * c) (quadratic_biases nb)\<rparr>"

definition converted_linear ::
  "'b::field_char_0 multipliers \<Rightarrow> 'b BinaryQuadraticModel \<Rightarrow> nat \<Rightarrow> 'b" where
  "converted_linear mp m u =
     linear_biases m ! u * lin_mp mp + lin_quad_mp mp * sum_list (quadratic_biases (adj m ! u))"

definition converted_offset ::
  "'b::field_char_0 multipliers \<Rightarrow> 'b BinaryQuadraticModel \<Rightarrow> nat \<Rightarrow> 'b" where
  "converted_offset mp m u =
     lin_offset_mp mp * linear_biases m ! u
     + quad_offset_mp mp * sum_list (quadratic_biases (adj m ! u))"

definition converted ::
  "'b::field_char_0 multipliers \<Rightarrow> 'b BinaryQuadraticModel \<Rightarrow> 'b BinaryQuadraticModel" where
  "converted mp m =
     m\<lparr>linear_biases := map (converted_linear mp m) [0..<length (linear_biases m)],
       adj := map (scale_row (quad_mp mp)) (adj m),
       offset := offset m + sum_list (map (converted_offset mp m) [0..<length (linear_biases m)])\<rparr>"

section \<open>Stored interactions\<close>

text \<open>
  The stored pairs \<open>(u, v)\<close> with \<open>u < v\<close>: every unordered pair of the model once.
  \<open>lower_entries\<close> and \<open>upper_entries\<close> are the entries of \<open>u\<close>'s neighbourhood
  with a neighbour below and above \<open>u\<close>.
\<close>

definition stored_pairs :: "'b BinaryQuadraticModel \<Rightarrow> (int \<times> int) list" where
  "stored_pairs m =
     concat (map (\<lambda>u. map (\<lambda>v. (int u, v)) (filter (\<lambda>v. int u < v) (neighbors (adj m ! u))))
                 [0..<num_variables m])"

definition lower_entries :: "'b BinaryQuadraticModel \<Rightarrow> nat \<Rightarrow> (int \<times> 'b) list" where
  "lower_entries m u = filter (\<lambda>(v, b). v < int u) (entries (adj m ! u))"

definition upper_entries :: "'b BinaryQuadraticModel \<Rightarrow> nat \<Rightarrow> (int \<times> 'b) list" where
  "upper_entries m u = filter (\<lambda>(v, b). int u < v) (entries (adj m ! u))"

section \<open>Dense ingestion in closed form\<close>

text \<open>
  \<open>append_entries\<close> is a run of \<^verbatim>\<open>emplace_back\<close> calls on one neighbourhood.
  \<open>combined dense n u v\<close> is the bias \<^verbatim>\<open>dense[u * n + v] + dense[v * n + u]\<close> of the
  pair, and \<open>combined_row dense n w\<close> lists, for \<open>w < n\<close>, the other variables
  \<open>p < n\<close> in ascending order with the combined bias of \<open>w\<close> and \<open>p\<close>, where
  that is not zero. The lemma \<open>dense_off_diagonal_appended\<close> below proves that the two
  nested loops of \<^verbatim>\<open>add_quadratic(dense, num_variables)\<close> append exactly these rows.
\<close>

definition append_entries :: "'b Neighborhood \<Rightarrow> (int \<times> 'b) list \<Rightarrow> 'b Neighborhood" where
  "append_entries nb es = fold (\<lambda>(v, bias) nb. emplace_back nb v bias) es nb"

definition appended ::
  "'b BinaryQuadraticModel \<Rightarrow> (nat \<Rightarrow> (int \<times> 'b) list) \<Rightarrow> 'b BinaryQuadraticModel" where
  "appended m f = m\<lparr>adj := map (\<lambda>w. append_entries (adj m ! w) (f w)) [0..<length (adj m)]\<rparr>"

definition combined :: "'b::field_char_0 list \<Rightarrow> nat \<Rightarrow> nat \<Rightarrow> nat \<Rightarrow> 'b" where
  "combined dense n u v = dense ! (u * n + v) + dense ! (v * n + u)"

definition combined_entries ::
  "'b::field_char_0 list \<Rightarrow> nat \<Rightarrow> nat \<Rightarrow> nat list \<Rightarrow> (int \<times> 'b) list" where
  "combined_entries dense n w ps =
     filter (\<lambda>(p, q). q \<noteq> 0) (map (\<lambda>p. (int p, combined dense n w p)) ps)"

definition combined_row :: "'b::field_char_0 list \<Rightarrow> nat \<Rightarrow> nat \<Rightarrow> (int \<times> 'b) list" where
  "combined_row dense n w =
     (if w < n then combined_entries dense n w (filter (\<lambda>p. p \<noteq> w) [0..<n]) else [])"

section \<open>The test models are what the tests build\<close>

lemma bqm0_built:
  "in_sequence
     [\<lambda>m. linear_assign m 2 (-1),
      \<lambda>m. set_quadratic m 0 1 (3/2),
      \<lambda>m. set_quadratic m 0 2 (-2),
      \<lambda>m. set_quadratic m 1 2 7,
      \<lambda>m. offset_assign m (-4)]
     (BinaryQuadraticModel_sized 3 BINARY) = Inr bqm0"
  by code_simp

lemma bqm1_built:
  "in_sequence
     [\<lambda>m. linear_assign m 0 1,
      \<lambda>m. linear_assign m 1 (-13/4),
      \<lambda>m. linear_assign m 2 2,
      \<lambda>m. linear_assign m 3 3,
      \<lambda>m. linear_assign m 4 (-9/2),
      \<lambda>m. set_quadratic m 0 1 (28/5),
      \<lambda>m. set_quadratic m 0 3 (-1),
      \<lambda>m. set_quadratic m 1 2 (8/5),
      \<lambda>m. set_quadratic m 3 4 (-25),
      \<lambda>m. offset_assign m (-19/5)]
     (BinaryQuadraticModel_sized 5 BINARY) = Inr bqm1"
  by code_simp

lemma bqm5_built:
  "list_all (\<lambda>vt. in_sequence
     [\<lambda>m. linear_assign m 0 1,
      \<lambda>m. linear_assign m 1 (-13/4),
      \<lambda>m. linear_assign m 2 0,
      \<lambda>m. linear_assign m 3 3,
      \<lambda>m. linear_assign m 4 (-9/2),
      \<lambda>m. set_quadratic m 0 3 (-1),
      \<lambda>m. set_quadratic m 3 1 (28/5),
      \<lambda>m. set_quadratic m 0 1 (8/5),
      \<lambda>m. offset_assign m (-19/5)]
     (BinaryQuadraticModel_sized 5 vt) = Inr (bqm5 vt)) [BINARY, SPIN]"
  by code_simp

lemma bqm1_mapped_built:
  "add_bqm_mapping bqm1 bqm0 [7, 2, 0] = Inr bqm1_mapped"
  by code_simp

lemma test_models_invariants:
  "matching_sizes bqm0 \<and> sorted_unique bqm0 \<and> symmetric_storage bqm0 \<and> no_self_loops bqm0"
  "matching_sizes bqm1 \<and> sorted_unique bqm1 \<and> symmetric_storage bqm1 \<and> no_self_loops bqm1"
  "matching_sizes (bqm5 vt) \<and> sorted_unique (bqm5 vt) \<and> symmetric_storage (bqm5 vt)
     \<and> no_self_loops (bqm5 vt)"
  by (simp_all add: matching_sizes_def sorted_unique_def symmetric_storage_def
        no_self_loops_def bqm0_def bqm1_def bqm5_def entries_def)

section \<open>Neighborhood: \<^verbatim>\<open>sort_and_sum\<close>\<close>

lemma zip_sort_stable_contract: "zip_sort_contract zip_sort_stable"
  by (simp add: zip_sort_contract_def zip_sort_stable_def Let_def zip_map_fst_snd)

lemma zip_sort_contractD:
  assumes "zip_sort_contract zip_sort" "length control = length response"
    and "zip_sort control response = (control', response')"
  shows "length control' = length control \<and> length response' = length control
         \<and> sorted control' \<and> mset (zip control' response') = mset (zip control response)"
  using assms(1) [unfolded zip_sort_contract_def, THEN spec, THEN spec, THEN mp, OF assms(2)]
    assms(3)
  by simp

lemma sorted_example_pairs:
  fixes ks :: "int list" and bs :: "rat list"
  assumes len: "length ks = 4" "length bs = 4"
    and sorted: "sorted ks"
    and mset: "mset (zip ks bs) = mset (zip [0, 2, 0, 1] [1/2, -2, 2, -3])"
  shows "ks = [0, 0, 1, 2] \<and> (bs = [1/2, 2, -3, -2] \<or> bs = [2, 1/2, -3, -2])"
proof -
  have "mset ks = image_mset fst (mset (zip ks bs))"
    using len by (simp flip: mset_map)
  also have "\<dots> = mset [0, 2, 0, 1]"
    unfolding mset by simp
  finally have "sort [0, 2, 0, 1 :: int] = ks"
    using sorted by (intro properties_for_sort) simp_all
  then have ks: "ks = [0, 0, 1, 2]" by simp
  from len(2) obtain a b c d where bs: "bs = [a, b, c, d]"
    by (auto simp: length_Suc_conv eval_nat_numeral)
  from mset have "{#(0::int, a), (0, b), (1, c), (2, d)#} = {#(0, 1/2), (2, -2), (0, 2), (1, -3 :: rat)#}"
    unfolding ks bs by simp
  then have "c = -3 \<and> d = -2 \<and> ((a = 1/2 \<and> b = 2) \<or> (a = 2 \<and> b = 1/2))"
    by (auto simp: add_eq_conv_diff)
  with ks bs show ?thesis by auto
qed


lemma sum_duplicate_keys_example:
  "sum_duplicate_keys \<lparr>neighbors = [0, 0, 1, 2], quadratic_biases = [1/2, 2, -3, -2 :: rat]\<rparr>
     = \<lparr>neighbors = [0, 1, 2], quadratic_biases = [5/2, -3, -2]\<rparr>"
  "sum_duplicate_keys \<lparr>neighbors = [0, 0, 1, 2], quadratic_biases = [2, 1/2, -3, -2 :: rat]\<rparr>
     = \<lparr>neighbors = [0, 1, 2], quadratic_biases = [5/2, -3, -2]\<rparr>"
  by code_simp code_simp

text \<open>
  C6. \<^verbatim>\<open>sort_and_sum\<close> on the neighbourhood with keys \<open>[0,2,0,1]\<close> and biases
  \<open>[.5,-2,2,-3]\<close>, in that insertion order, leaves exactly the keys \<open>[0,1,2]\<close>, with
  bias \<open>2.5\<close> at key 0, \<open>-3\<close> at key 1 and \<open>-2\<close> at key 2: with every
  \<^verbatim>\<open>zip_sort\<close> that sorts the keys and keeps the pairs, whatever order it gives the two
  biases of key 0.
\<close>

theorem sort_and_sum_example:
  assumes "zip_sort_contract zip_sort"
  shows "sort_and_sum zip_sort
           \<lparr>neighbors = [0, 2, 0, 1], quadratic_biases = [1/2, -2, 2, -3 :: rat]\<rparr>
         = \<lparr>neighbors = [0, 1, 2], quadratic_biases = [5/2, -3, -2]\<rparr>"
proof -
  obtain ks bs where zs: "zip_sort [0, 2, 0, 1] [1/2, -2, 2, -3 :: rat] = (ks, bs)"
    by (cases "zip_sort [0, 2, 0, 1] [1/2, -2, 2, -3 :: rat]")
  then have "length ks = 4" "length bs = 4" "sorted ks"
    "mset (zip ks bs) = mset (zip [0, 2, 0, 1] [1/2, -2, 2, -3])"
    using zip_sort_contractD [OF assms, of "[0, 2, 0, 1]" "[1/2, -2, 2, -3]" ks bs] by simp_all
  then have "ks = [0, 0, 1, 2] \<and> (bs = [1/2, 2, -3, -2] \<or> bs = [2, 1/2, -3, -2])"
    by (rule sorted_example_pairs)
  moreover have "sort_and_sum zip_sort
           \<lparr>neighbors = [0, 2, 0, 1], quadratic_biases = [1/2, -2, 2, -3 :: rat]\<rparr>
         = sum_duplicate_keys \<lparr>neighbors = ks, quadratic_biases = bs\<rparr>"
    by (simp add: sort_and_sum_def zs)
  ultimately show ?thesis
    using sum_duplicate_keys_example by auto
qed

theorem sort_and_sum_example_witness:
  "zip_sort_contract (zip_sort_stable :: rat zip_sorter)
   \<and> sort_and_sum zip_sort_stable
         \<lparr>neighbors = [0, 2, 0, 1], quadratic_biases = [1/2, -2, 2, -3 :: rat]\<rparr>
       = \<lparr>neighbors = [0, 1, 2], quadratic_biases = [5/2, -3, -2]\<rparr>"
  using sort_and_sum_example [OF zip_sort_stable_contract] zip_sort_stable_contract
  by simp

section \<open>Construction and accessors\<close>

text \<open>
  C9. A model built by the constructor without arguments has vartype \<^verbatim>\<open>BINARY\<close>, no
  variables, no interactions and offset 0.
\<close>

theorem default_constructor:
  "vartype (BinaryQuadraticModel_default :: 'b::field_char_0 BinaryQuadraticModel) = BINARY
   \<and> num_variables (BinaryQuadraticModel_default :: 'b BinaryQuadraticModel) = 0
   \<and> num_interactions (BinaryQuadraticModel_default :: 'b BinaryQuadraticModel) = 0
   \<and> offset (BinaryQuadraticModel_default :: 'b BinaryQuadraticModel) = 0"
  by (simp add: BinaryQuadraticModel_default_def BinaryQuadraticModel_of_def
        num_variables_def num_interactions_def)

text \<open>
  C8, as the code has it. \<^verbatim>\<open>vartype(v)\<close> makes no range check: for every \<open>v\<close>, inside
  \<open>[0, num_variables())\<close> or not, it returns the vartype of the model and never fails.
\<close>

theorem vartype_at_any_index:
  "vartype_at m v = Inr (vartype m)"
  by (simp add: vartype_at_def)

text \<open>
  C8, as the claim has it, fails: on the model of the empty constructor, which has no
  variables, the index 0 is out of range and \<^verbatim>\<open>vartype(0)\<close> returns \<^verbatim>\<open>BINARY\<close>.
\<close>

theorem vartype_at_out_of_range_returns:
  "\<not> (0 \<le> (0::int)
       \<and> (0::int) < int (num_variables (BinaryQuadraticModel_default :: rat BinaryQuadraticModel)))
   \<and> vartype_at (BinaryQuadraticModel_default :: rat BinaryQuadraticModel) 0 = Inr BINARY"
  by (simp add: vartype_at_def BinaryQuadraticModel_default_def BinaryQuadraticModel_of_def
        num_variables_def)

section \<open>Coordinate-list ingestion\<close>

text \<open>
  C5. The coordinate lists \<open>rows = [0,2,0,1]\<close>, \<open>cols = [0,2,1,2]\<close>,
  \<open>biases = [.5,-2,2,-3]\<close> added to an empty \<^verbatim>\<open>SPIN\<close> model give three variables,
  offset \<open>-1.5\<close>, \<open>quadratic(0,1) = 2\<close>, \<open>quadratic(2,1) = -3\<close>, and
  \<open>quadratic_at(0,2)\<close> throws \<^verbatim>\<open>std::out_of_range\<close> (no such interaction). Added to an
  empty \<^verbatim>\<open>BINARY\<close> model they give \<open>linear(0) = 0.5\<close>, \<open>linear(2) = -2\<close>, offset 0
  and the same quadratic results.
\<close>

theorem add_quadratic_coo_scenario:
  "(case add_quadratic_coo zip_sort (BinaryQuadraticModel_of SPIN)
           [0, 2, 0, 1] [0, 2, 1, 2] [1/2, -2, 2, -3 :: rat] 4 of
      Inl e \<Rightarrow> False
    | Inr m \<Rightarrow>
        num_variables m = 3 \<and> offset m = -3/2
        \<and> quadratic m 0 1 = 2 \<and> quadratic m 2 1 = -3
        \<and> quadratic_at m 0 2 = Inl (out_of_range ''given variables have no interaction''))
   \<and> (case add_quadratic_coo zip_sort (BinaryQuadraticModel_of BINARY)
           [0, 2, 0, 1] [0, 2, 1, 2] [1/2, -2, 2, -3 :: rat] 4 of
      Inl e \<Rightarrow> False
    | Inr m \<Rightarrow>
        num_variables m = 3 \<and> linear m 0 = 1/2 \<and> linear m 2 = -2 \<and> offset m = 0
        \<and> quadratic m 0 1 = 2 \<and> quadratic m 2 1 = -3
        \<and> quadratic_at m 0 2 = Inl (out_of_range ''given variables have no interaction''))"
  by code_simp

text \<open>
  C7. With a negative \<open>length\<close> the coordinate-list \<^verbatim>\<open>add_quadratic\<close> throws
  \<^verbatim>\<open>std::out_of_range("length must be positive")\<close>, the exception of the header for an
  invalid length, and the model (variables, linear biases, neighbourhoods, offset) is
  as it was before the call.
\<close>

theorem add_quadratic_coo_negative_length:
  "len < 0 \<Longrightarrow>
   add_quadratic_coo zip_sort m rows cols biases len
     = Inl (out_of_range ''length must be positive'', m)"
  by (simp add: add_quadratic_coo_def)

theorem add_quadratic_coo_negative_length_witness:
  "(-1 :: int) < 0
   \<and> add_quadratic_coo zip_sort_stable bqm1 [0, 2, 0, 1] [0, 2, 1, 2] [1/2, -2, 2, -3] (-1)
       = Inl (out_of_range ''length must be positive'', bqm1)"
  using add_quadratic_coo_negative_length
          [of "-1" zip_sort_stable bqm1 "[0, 2, 0, 1]" "[0, 2, 1, 2]" "[1/2, -2, 2, -3]"]
  by simp

section \<open>Merging models\<close>

text \<open>
  C2 at the input of the test "the update involves a mapping": \<open>bqm1\<close> and \<open>bqm0\<close>
  satisfy the invariants, the mapping \<open>[7, 2, 0]\<close> is injective and as long as \<open>bqm0\<close>
  has variables, and \<^verbatim>\<open>bqm1.add_bqm(bqm0, mapping)\<close> returns normally. It appends the
  mapped entries with \<^verbatim>\<open>emplace_back\<close> and does not call \<^verbatim>\<open>sort_and_sum\<close>: the keys of
  variable 0 are left as \<open>[1, 3, 7, 2]\<close>, which is not ascending. The storage is still
  symmetric. The interaction of 0 and 2 is stored with bias 7, and \<open>quadratic(0, 2)\<close>,
  which searches the keys as a sorted range, returns 0.
\<close>

theorem add_bqm_mapping_leaves_unsorted:
  "sorted_unique bqm1 \<and> symmetric_storage bqm1 \<and> sorted_unique bqm0 \<and> symmetric_storage bqm0
   \<and> distinct [7, 2, 0 :: int] \<and> length [7, 2, 0 :: int] = num_variables bqm0
   \<and> (case add_bqm_mapping bqm1 bqm0 [7, 2, 0] of
        Inl e \<Rightarrow> False
      | Inr m \<Rightarrow> neighbors (adj m ! 0) = [1, 3, 7, 2] \<and> \<not> sorted_unique m
                 \<and> symmetric_storage m
                 \<and> (2, 7) \<in> set (entries (adj m ! 0)) \<and> quadratic m 0 2 = 0)"
  by code_simp

text \<open>
  At the same models \<^verbatim>\<open>add_bqm(bqm)\<close>, which calls \<^verbatim>\<open>sort_and_sum\<close> on every
  neighbourhood it appends to, leaves the invariants in place.
\<close>

lemma add_bqm_keeps_sorted:
  "(case add_bqm zip_sort_stable bqm1 bqm0 of
      Inl e \<Rightarrow> False
    | Inr m \<Rightarrow> sorted_unique m \<and> symmetric_storage m \<and> matching_sizes m
               \<and> quadratic m 0 1 = 71/10 \<and> quadratic m 1 2 = 43/5)"
  by code_simp

section \<open>\<^verbatim>\<open>change_vartype\<close>\<close>

lemma map_take_update:
  "k < length qs \<Longrightarrow>
   (map f (take k qs) @ drop k qs)[k := x] = map f (take k qs) @ x # drop (Suc k) qs"
  by (simp add: list_update_append Cons_nth_drop_Suc [symmetric])

lemma change_entry_fold:
  assumes "ui < length (adj m)" "ui < length (linear_biases m)"
    and "k \<le> length (quadratic_biases (adj m ! ui))"
  shows "fold (change_entry mp ui) [0..<k] m =
     m\<lparr>adj := (adj m)[ui := (adj m ! ui)\<lparr>quadratic_biases :=
              map (\<lambda>q. q * quad_mp mp) (take k (quadratic_biases (adj m ! ui)))
              @ drop k (quadratic_biases (adj m ! ui))\<rparr>],
       linear_biases := (linear_biases m)[ui := linear_biases m ! ui
              + lin_quad_mp mp * sum_list (take k (quadratic_biases (adj m ! ui)))],
       offset := offset m + quad_offset_mp mp * sum_list (take k (quadratic_biases (adj m ! ui)))\<rparr>"
  using assms
proof (induction k)
  case 0
  then show ?case by simp
next
  case (Suc k)
  let ?qs = "quadratic_biases (adj m ! ui)"
  let ?mk = "m\<lparr>adj := (adj m)[ui := (adj m ! ui)\<lparr>quadratic_biases :=
              map (\<lambda>q. q * quad_mp mp) (take k ?qs) @ drop k ?qs\<rparr>],
       linear_biases := (linear_biases m)[ui := linear_biases m ! ui
              + lin_quad_mp mp * sum_list (take k ?qs)],
       offset := offset m + quad_offset_mp mp * sum_list (take k ?qs)\<rparr>"
  from Suc.prems have k: "k < length ?qs" by simp
  have "fold (change_entry mp ui) [0..<Suc k] m
          = change_entry mp ui k (fold (change_entry mp ui) [0..<k] m)"
    by simp
  also have "fold (change_entry mp ui) [0..<k] m = ?mk"
    using Suc.IH Suc.prems by simp
  also have "change_entry mp ui k ?mk =
     m\<lparr>adj := (adj m)[ui := (adj m ! ui)\<lparr>quadratic_biases :=
              map (\<lambda>q. q * quad_mp mp) (take (Suc k) ?qs) @ drop (Suc k) ?qs\<rparr>],
       linear_biases := (linear_biases m)[ui := linear_biases m ! ui
              + lin_quad_mp mp * sum_list (take (Suc k) ?qs)],
       offset := offset m + quad_offset_mp mp * sum_list (take (Suc k) ?qs)\<rparr>"
    using Suc.prems(1,2) k
    by (simp add: change_entry_def Let_def map_take_update nth_append
          take_Suc_conv_app_nth algebra_simps)
  finally show ?case .
qed


lemma change_variable_closed:
  assumes "ui < length (adj m)" "ui < length (linear_biases m)"
    and "length (quadratic_biases (adj m ! ui)) = length (neighbors (adj m ! ui))"
  shows "change_variable mp ui m =
     m\<lparr>adj := (adj m)[ui := scale_row (quad_mp mp) (adj m ! ui)],
       linear_biases := (linear_biases m)[ui := converted_linear mp m ui],
       offset := offset m + converted_offset mp m ui\<rparr>"
proof -
  let ?m1 = "m\<lparr>linear_biases := (linear_biases m)[ui := linear_biases m ! ui * lin_mp mp],
                 offset := offset m + lin_offset_mp mp * linear_biases m ! ui\<rparr>"
  have "change_variable mp ui m
          = fold (change_entry mp ui) [0..<length (quadratic_biases (adj ?m1 ! ui))] ?m1"
    using assms(3) by (simp add: change_variable_def Let_def size_nb_def)
  also have "\<dots> = m\<lparr>adj := (adj m)[ui := scale_row (quad_mp mp) (adj m ! ui)],
       linear_biases := (linear_biases m)[ui := converted_linear mp m ui],
       offset := offset m + converted_offset mp m ui\<rparr>"
    using assms(1,2)
    by (subst change_entry_fold)
       (simp_all add: scale_row_def converted_linear_def converted_offset_def algebra_simps)
  finally show ?thesis .
qed

lemma map_upt_update:
  "k < length xs \<Longrightarrow>
   (map f [0..<k] @ drop k xs)[k := f k] = map f [0..<Suc k] @ drop (Suc k) xs"
  by (simp add: list_update_append Cons_nth_drop_Suc [symmetric])

lemma map_take_update_nth:
  "k < length xs \<Longrightarrow>
   (map f (take k xs) @ drop k xs)[k := f (xs ! k)] = map f (take (Suc k) xs) @ drop (Suc k) xs"
  by (simp add: map_take_update take_Suc_conv_app_nth)

lemma change_variables_fold:
  assumes "matching_sizes m" "k \<le> length (linear_biases m)"
  shows "fold (change_variable mp) [0..<k] m =
     m\<lparr>linear_biases := map (converted_linear mp m) [0..<k] @ drop k (linear_biases m),
       adj := map (scale_row (quad_mp mp)) (take k (adj m)) @ drop k (adj m),
       offset := offset m + sum_list (map (converted_offset mp m) [0..<k])\<rparr>"
  using assms(2)
proof (induction k)
  case 0
  then show ?case by simp
next
  case (Suc k)
  let ?mk = "m\<lparr>linear_biases := map (converted_linear mp m) [0..<k] @ drop k (linear_biases m),
       adj := map (scale_row (quad_mp mp)) (take k (adj m)) @ drop k (adj m),
       offset := offset m + sum_list (map (converted_offset mp m) [0..<k])\<rparr>"
  from Suc.prems assms(1) have k: "k < length (linear_biases m)" "k < length (adj m)"
    and row: "length (quadratic_biases (adj m ! k)) = length (neighbors (adj m ! k))"
    by (simp_all add: matching_sizes_def list_all_length)
  have "fold (change_variable mp) [0..<Suc k] m
          = change_variable mp k (fold (change_variable mp) [0..<k] m)"
    by simp
  also have "fold (change_variable mp) [0..<k] m = ?mk"
    using Suc.IH Suc.prems by simp
  also have "change_variable mp k ?mk =
     m\<lparr>linear_biases := map (converted_linear mp m) [0..<Suc k] @ drop (Suc k) (linear_biases m),
       adj := map (scale_row (quad_mp mp)) (take (Suc k) (adj m)) @ drop (Suc k) (adj m),
       offset := offset m + sum_list (map (converted_offset mp m) [0..<Suc k])\<rparr>"
  proof -
    have nth: "adj ?mk ! k = adj m ! k" "linear_biases ?mk ! k = linear_biases m ! k"
      using k by (simp_all add: nth_append)
    have cl: "converted_linear mp ?mk k = converted_linear mp m k"
      and co: "converted_offset mp ?mk k = converted_offset mp m k"
      using nth by (simp_all add: converted_linear_def converted_offset_def)
    have "change_variable mp k ?mk =
       ?mk\<lparr>adj := (adj ?mk)[k := scale_row (quad_mp mp) (adj ?mk ! k)],
         linear_biases := (linear_biases ?mk)[k := converted_linear mp ?mk k],
         offset := offset ?mk + converted_offset mp ?mk k\<rparr>"
      using k row nth by (intro change_variable_closed) simp_all
    also have "\<dots> = m\<lparr>linear_biases := map (converted_linear mp m) [0..<Suc k] @ drop (Suc k) (linear_biases m),
       adj := map (scale_row (quad_mp mp)) (take (Suc k) (adj m)) @ drop (Suc k) (adj m),
       offset := offset m + sum_list (map (converted_offset mp m) [0..<Suc k])\<rparr>"
      unfolding cl co nth
      using k map_upt_update [of k "linear_biases m" "converted_linear mp m"]
        map_take_update_nth [of k "adj m" "scale_row (quad_mp mp)"]
      by (simp add: algebra_simps)
    finally show ?thesis .
  qed
  finally show ?case .
qed

lemma change_variables_converted:
  assumes "matching_sizes m"
  shows "fold (change_variable mp) [0..<num_variables m] m = converted mp m"
  using change_variables_fold [OF assms, of "length (linear_biases m)" mp] assms
  by (simp add: converted_def num_variables_def matching_sizes_def)


lemma converted_sizes:
  "matching_sizes m \<Longrightarrow> matching_sizes (converted mp m)"
  by (simp add: matching_sizes_def converted_def list_all_length scale_row_def)

lemma matching_sizes_vartype:
  "matching_sizes (m\<lparr>vartype := vt\<rparr>) = matching_sizes m"
  by (simp add: matching_sizes_def)

lemma converted_inverse:
  assumes sizes: "matching_sizes m"
    and lin: "lin_mp mp1 * lin_mp mp2 = 1"
    and quad: "quad_mp mp1 * quad_mp mp2 = 1"
    and lq: "lin_quad_mp mp1 * lin_mp mp2 + lin_quad_mp mp2 * quad_mp mp1 = 0"
    and lo: "lin_offset_mp mp1 + lin_offset_mp mp2 * lin_mp mp1 = 0"
    and qo: "quad_offset_mp mp1 + lin_offset_mp mp2 * lin_quad_mp mp1
               + quad_offset_mp mp2 * quad_mp mp1 = 0"
  shows "converted mp2 (converted mp1 m) = m"
proof -
  let ?n = "length (linear_biases m)"
  let ?m' = "converted mp1 m"
  have len: "length (adj m) = ?n"
    using sizes by (simp add: matching_sizes_def)
  have row: "quadratic_biases (adj ?m' ! u) = map (\<lambda>q. q * quad_mp mp1) (quadratic_biases (adj m ! u))"
    if "u < ?n" for u
    using that len by (simp add: converted_def scale_row_def)
  have lin': "linear_biases ?m' ! u = converted_linear mp1 m u" if "u < ?n" for u
    using that by (simp add: converted_def)
  have cl: "converted_linear mp2 ?m' u = linear_biases m ! u" if "u < ?n" for u
  proof -
    let ?l = "linear_biases m ! u" and ?S = "sum_list (quadratic_biases (adj m ! u))"
    have "converted_linear mp2 ?m' u
            = (?l * lin_mp mp1 + lin_quad_mp mp1 * ?S) * lin_mp mp2
              + lin_quad_mp mp2 * (?S * quad_mp mp1)"
      using that
      by (simp add: converted_linear_def [of mp2] row lin' sum_list_mult_const
            converted_linear_def [of mp1])
    also have "\<dots> = ?l * (lin_mp mp1 * lin_mp mp2)
              + ?S * (lin_quad_mp mp1 * lin_mp mp2 + lin_quad_mp mp2 * quad_mp mp1)"
      by (simp add: algebra_simps)
    finally show ?thesis by (simp add: lin lq)
  qed
  have co: "converted_offset mp1 m u + converted_offset mp2 ?m' u = 0" if "u < ?n" for u
  proof -
    let ?l = "linear_biases m ! u" and ?S = "sum_list (quadratic_biases (adj m ! u))"
    have "converted_offset mp1 m u + converted_offset mp2 ?m' u
            = lin_offset_mp mp1 * ?l + quad_offset_mp mp1 * ?S
              + (lin_offset_mp mp2 * (?l * lin_mp mp1 + lin_quad_mp mp1 * ?S)
                 + quad_offset_mp mp2 * (?S * quad_mp mp1))"
      using that
      by (simp add: converted_offset_def row lin' sum_list_mult_const converted_linear_def)
    also have "\<dots> = ?l * (lin_offset_mp mp1 + lin_offset_mp mp2 * lin_mp mp1)
              + ?S * (quad_offset_mp mp1 + lin_offset_mp mp2 * lin_quad_mp mp1
                      + quad_offset_mp mp2 * quad_mp mp1)"
      by (simp add: algebra_simps)
    finally show ?thesis by (simp add: lo qo)
  qed
  have L: "map (converted_linear mp2 ?m') [0..<?n] = linear_biases m"
    by (rule nth_equalityI) (simp_all add: cl)
  have "scale_row (quad_mp mp2) (scale_row (quad_mp mp1) nb) = nb" for nb :: "'a Neighborhood"
  proof -
    have "(\<lambda>q. q * quad_mp mp1 * quad_mp mp2) = (\<lambda>q. q)"
      using quad by (simp add: mult.assoc)
    then show ?thesis by (simp add: scale_row_def comp_def)
  qed
  then have A: "map (scale_row (quad_mp mp2)) (map (scale_row (quad_mp mp1)) (adj m)) = adj m"
    by (simp add: comp_def)
  have "sum_list (map (converted_offset mp1 m) [0..<?n])
          + sum_list (map (converted_offset mp2 ?m') [0..<?n])
        = sum_list (map (\<lambda>u. converted_offset mp1 m u + converted_offset mp2 ?m' u) [0..<?n])"
    by (simp add: sum_list_addf)
  also have "\<dots> = sum_list (map (\<lambda>u. 0) [0..<?n])"
    by (rule arg_cong [where f = sum_list], rule map_cong) (simp_all add: co)
  finally have O: "sum_list (map (converted_offset mp1 m) [0..<?n])
          + sum_list (map (converted_offset mp2 ?m') [0..<?n]) = 0"
    by simp
  have "converted mp2 ?m' =
     m\<lparr>linear_biases := map (converted_linear mp2 ?m') [0..<?n],
       adj := map (scale_row (quad_mp mp2)) (map (scale_row (quad_mp mp1)) (adj m)),
       offset := offset m + (sum_list (map (converted_offset mp1 m) [0..<?n])
          + sum_list (map (converted_offset mp2 ?m') [0..<?n]))\<rparr>"
    by (simp add: converted_def [of mp2] add.assoc) (simp add: converted_def)
  then show ?thesis
    unfolding L A O by simp
qed

lemma spin_binary_inverse:
  "matching_sizes m \<Longrightarrow> converted to_binary_mp (converted to_spin_mp m) = m"
  "matching_sizes m \<Longrightarrow> converted to_spin_mp (converted to_binary_mp m) = m"
  by (rule converted_inverse; simp add: to_binary_mp_def to_spin_mp_def)+

lemma change_vartype_converted:
  assumes "matching_sizes m" "vt \<noteq> vartype m"
  shows "vt = BINARY \<Longrightarrow> change_vartype m vt = Inr ((converted to_binary_mp m)\<lparr>vartype := BINARY\<rparr>)"
    and "vt = SPIN \<Longrightarrow> change_vartype m vt = Inr ((converted to_spin_mp m)\<lparr>vartype := SPIN\<rparr>)"
  using assms by (simp_all add: change_vartype_def change_variables_converted)

lemma converted_vartype_update:
  "converted mp (m\<lparr>vartype := vt\<rparr>) = (converted mp m)\<lparr>vartype := vt\<rparr>"
  by (simp add: converted_def converted_linear_def converted_offset_def cong: map_cong)

text \<open>
  C3. For a model of vartype \<open>X\<close> and the other vartype \<open>Y\<close>, both among
  \<^verbatim>\<open>BINARY\<close> and \<^verbatim>\<open>SPIN\<close>, \<^verbatim>\<open>change_vartype(Y)\<close> followed by
  \<^verbatim>\<open>change_vartype(X)\<close> returns normally both times and gives back the model: every
  linear bias, every neighbourhood with its biases, the offset and the vartype. Biases are
  exact here; a model is a state whose vectors have matching sizes.
\<close>

theorem change_vartype_round_trip:
  assumes "matching_sizes m"
    and "vartype m \<in> {BINARY, SPIN}" and "Y \<in> {BINARY, SPIN}" and "Y \<noteq> vartype m"
  shows "and_then (change_vartype m Y) (\<lambda>m'. change_vartype m' (vartype m)) = Inr m"
proof (cases "vartype m")
  case BINARY
  with assms have Y: "Y = SPIN" by auto
  have 1: "change_vartype m SPIN = Inr ((converted to_spin_mp m)\<lparr>vartype := SPIN\<rparr>)"
    using assms(1) BINARY by (intro change_vartype_converted) simp_all
  have 2: "change_vartype ((converted to_spin_mp m)\<lparr>vartype := SPIN\<rparr>) BINARY
             = Inr ((converted to_binary_mp ((converted to_spin_mp m)\<lparr>vartype := SPIN\<rparr>))\<lparr>vartype := BINARY\<rparr>)"
    using assms(1) by (intro change_vartype_converted) (simp_all add: converted_sizes matching_sizes_vartype)
  show ?thesis
    using BINARY assms(1)
    by (simp add: Y and_then_def 1 2 converted_vartype_update spin_binary_inverse)
next
  case SPIN
  with assms have Y: "Y = BINARY" by auto
  have 1: "change_vartype m BINARY = Inr ((converted to_binary_mp m)\<lparr>vartype := BINARY\<rparr>)"
    using assms(1) SPIN by (intro change_vartype_converted) simp_all
  have 2: "change_vartype ((converted to_binary_mp m)\<lparr>vartype := BINARY\<rparr>) SPIN
             = Inr ((converted to_spin_mp ((converted to_binary_mp m)\<lparr>vartype := BINARY\<rparr>))\<lparr>vartype := SPIN\<rparr>)"
    using assms(1) by (intro change_vartype_converted) (simp_all add: converted_sizes matching_sizes_vartype)
  show ?thesis
    using SPIN assms(1)
    by (simp add: Y and_then_def 1 2 converted_vartype_update spin_binary_inverse)
next
  case INTEGER
  with assms show ?thesis by simp
qed

theorem change_vartype_round_trip_witness:
  "matching_sizes (bqm5 BINARY) \<and> vartype (bqm5 BINARY) \<in> {BINARY, SPIN}
   \<and> SPIN \<in> {BINARY, SPIN} \<and> SPIN \<noteq> vartype (bqm5 BINARY)
   \<and> and_then (change_vartype (bqm5 BINARY) SPIN) (\<lambda>m'. change_vartype m' (vartype (bqm5 BINARY)))
       = Inr (bqm5 BINARY)"
proof -
  have v: "vartype (bqm5 BINARY) = BINARY" by (simp add: bqm5_def)
  have s: "matching_sizes (bqm5 BINARY)" using test_models_invariants(3) by simp
  show ?thesis
    using change_vartype_round_trip [of "bqm5 BINARY" SPIN] s v by simp
qed

section \<open>\<^verbatim>\<open>energy\<close>\<close>

lemma fold_add_sum_list:
  "fold (\<lambda>x en. en + f x) xs en = en + sum_list (map f xs)"
  for en :: "'a::comm_monoid_add"
  by (induction xs arbitrary: en) (simp_all add: add.assoc)

lemma fold_add2_sum_list:
  "fold (\<lambda>x en. (en + l x) + r x) xs en = en + sum_list (map (\<lambda>x. l x + r x) xs)"
  for en :: "'a::comm_monoid_add"
  by (induction xs arbitrary: en) (simp_all add: add.assoc)

lemma energy_neighborhood_sum:
  "energy_neighborhood sample u nb en =
     en + (\<Sum>(v, b)\<leftarrow>takeWhile (\<lambda>(v, b). 0 \<le> v \<and> v < int u) (entries nb).
             sample ! u * sample ! nat v * b)"
  unfolding energy_neighborhood_def
  using fold_add_sum_list [of "\<lambda>(v, b). sample ! u * sample ! nat v * b"]
  by (simp add: case_prod_unfold)

lemma energy_sum:
  "energy m sample =
     offset m + (\<Sum>u\<leftarrow>[0..<num_variables m]. sample ! u * linear m (int u)
        + (\<Sum>(v, b)\<leftarrow>takeWhile (\<lambda>(v, b). 0 \<le> v \<and> v < int u) (entries (adj m ! u)).
             sample ! u * sample ! nat v * b))"
  unfolding energy_def energy_neighborhood_sum
  by (rule fold_add2_sum_list)

lemma takeWhile_filter_sorted:
  "sorted_wrt (<) (map fst es) \<Longrightarrow>
   takeWhile (\<lambda>(v, b). v < u) es = filter (\<lambda>(v, b). v < u) es"
  for u :: int
proof (induction es)
  case Nil
  then show ?case by simp
next
  case (Cons e es)
  show ?case
  proof (cases "fst e < u")
    case True
    with Cons show ?thesis by (simp add: case_prod_unfold)
  next
    case False
    with Cons.prems have "\<forall>x\<in>set es. \<not> fst x < u" by fastforce
    then have "filter (\<lambda>(v, b). v < u) es = []"
      by (simp add: case_prod_unfold)
    with False show ?thesis by (simp add: case_prod_unfold)
  qed
qed

lemma symmetric_storageD:
  assumes "symmetric_storage m" "u < length (adj m)" "(v, b) \<in> set (entries (adj m ! u))"
  shows "0 \<le> v" "nat v < length (adj m)" "(int u, b) \<in> set (entries (adj m ! nat v))"
  using assms by (auto simp: symmetric_storage_def list_all_iff)

lemma sorted_uniqueD:
  "sorted_unique m \<Longrightarrow> u < length (adj m) \<Longrightarrow> sorted_wrt (<) (neighbors (adj m ! u))"
  by (simp add: sorted_unique_def list_all_length)

lemma matching_sizesD:
  assumes "matching_sizes m"
  shows "length (adj m) = num_variables m"
    and "u < length (adj m) \<Longrightarrow> length (quadratic_biases (adj m ! u)) = length (neighbors (adj m ! u))"
  using assms by (simp_all add: matching_sizes_def num_variables_def list_all_length)

lemma map_fst_entries:
  "length (quadratic_biases nb) = length (neighbors nb) \<Longrightarrow> map fst (entries nb) = neighbors nb"
  by (simp add: entries_def)

lemma distinct_entries:
  "sorted_wrt (<) (neighbors nb) \<Longrightarrow> distinct (entries nb)"
  unfolding entries_def by (intro distinct_zipI1) (simp add: strict_sorted_iff)

lemma lower_takeWhile:
  assumes "matching_sizes m" "sorted_unique m" "symmetric_storage m" "u < length (adj m)"
  shows "takeWhile (\<lambda>(v, b). 0 \<le> v \<and> v < int u) (entries (adj m ! u)) = lower_entries m u"
proof -
  have "takeWhile (\<lambda>(v, b). 0 \<le> v \<and> v < int u) (entries (adj m ! u))
          = takeWhile (\<lambda>(v, b). v < int u) (entries (adj m ! u))"
    using symmetric_storageD(1) [OF assms(3,4)] by (intro takeWhile_cong) auto
  also have "\<dots> = lower_entries m u"
    unfolding lower_entries_def
    using assms by (intro takeWhile_filter_sorted) (simp add: map_fst_entries matching_sizesD sorted_uniqueD)
  finally show ?thesis .
qed


lemma lower_bound_search_sorted:
  "sorted ns \<Longrightarrow> first + len \<le> length ns \<Longrightarrow> (\<forall>i<first. ns ! i < v) \<Longrightarrow>
   (\<forall>i. first + len \<le> i \<and> i < length ns \<longrightarrow> \<not> ns ! i < v) \<Longrightarrow>
   lower_bound_search ns v first len = length (takeWhile (\<lambda>x. x < v) ns)"
proof (induction ns v first len rule: lower_bound_search.induct)
  case (1 ns v first len)
  note sorted = "1.prems"(1) and bound = "1.prems"(2)
    and below = "1.prems"(3) and above = "1.prems"(4)
  show ?case
  proof (cases "0 < len")
    case False
    with below above have "takeWhile (\<lambda>x. x < v) ns = take first ns"
      by (intro takeWhile_eq_take_P_nth) auto
    with False bound show ?thesis by simp
  next
    case True
    let ?mid = "first + len div 2"
    from True bound have mid: "?mid < length ns" "?mid < first + len"
      by auto
    show ?thesis
    proof (cases "ns ! ?mid < v")
      case less: True
      have low: "\<forall>i<Suc ?mid. ns ! i < v"
      proof (intro allI impI)
        fix i assume "i < Suc ?mid"
        then have "ns ! i \<le> ns ! ?mid"
          using sorted mid(1) by (auto simp: sorted_iff_nth_mono)
        with less show "ns ! i < v" by simp
      qed
      have rest: "Suc ?mid + (len - len div 2 - 1) = first + len"
        using True by auto
      have "lower_bound_search ns v (Suc ?mid) (len - len div 2 - 1)
              = length (takeWhile (\<lambda>x. x < v) ns)"
        using bound above by (intro "1.IH"(1) [OF True less sorted] low) (simp_all only: rest)
      with True less show ?thesis by simp
    next
      case False
      have high: "\<forall>i. first + len div 2 \<le> i \<and> i < length ns \<longrightarrow> \<not> ns ! i < v"
      proof (intro allI impI)
        fix i assume "first + len div 2 \<le> i \<and> i < length ns"
        then have "ns ! ?mid \<le> ns ! i"
          using sorted by (auto simp: sorted_iff_nth_mono)
        with False show "\<not> ns ! i < v" by simp
      qed
      have "lower_bound_search ns v first (len div 2)
              = length (takeWhile (\<lambda>x. x < v) ns)"
        using mid(1) by (intro "1.IH"(2) [OF True False sorted] below high) simp
      with True False show ?thesis by simp
    qed
  qed
qed

lemma std_lower_bound_sorted:
  "sorted ns \<Longrightarrow> std_lower_bound ns v = length (takeWhile (\<lambda>x. x < v) ns)"
  unfolding std_lower_bound_def by (rule lower_bound_search_sorted) simp_all

lemma lower_bound_nth:
  assumes "sorted_wrt (<) ns" "i < length ns"
  shows "std_lower_bound ns (ns ! i) = i"
proof -
  have "takeWhile (\<lambda>x. x < ns ! i) ns = take i ns"
    using assms by (intro takeWhile_eq_take_P_nth) (auto simp: sorted_wrt_iff_nth_less)
  with assms show ?thesis by (simp add: std_lower_bound_sorted strict_sorted_iff)
qed

lemma get_nb_stored:
  assumes "sorted_wrt (<) (neighbors nb)" "(v, b) \<in> set (entries nb)"
  shows "get_nb nb v d = b"
proof -
  from assms(2) obtain i where i: "i < length (neighbors nb)" "i < length (quadratic_biases nb)"
      "neighbors nb ! i = v" "quadratic_biases nb ! i = b"
    by (auto simp: entries_def in_set_zip)
  with lower_bound_nth [OF assms(1) i(1)] show ?thesis
    by (simp add: get_nb_def)
qed

lemma sum_list_entries_set:
  "sorted_wrt (<) (neighbors nb) \<Longrightarrow>
   sum_list (map f (filter P (entries nb))) = sum f {e \<in> set (entries nb). P e}"
  for f :: "int \<times> 'b \<Rightarrow> 'a::comm_monoid_add"
  using sum_list_distinct_conv_sum_set [of "filter P (entries nb)" f]
  by (simp add: distinct_entries)

lemma lower_upper_swap:
  fixes g :: "nat \<Rightarrow> nat \<Rightarrow> 'b \<Rightarrow> 'a::comm_monoid_add"
  assumes "sorted_unique m" "symmetric_storage m"
  shows "(\<Sum>u\<leftarrow>[0..<length (adj m)]. \<Sum>(v, b)\<leftarrow>upper_entries m u. g u (nat v) b)
       = (\<Sum>u\<leftarrow>[0..<length (adj m)]. \<Sum>(v, b)\<leftarrow>lower_entries m u. g (nat v) u b)"
proof -
  let ?n = "length (adj m)"
  let ?U = "\<lambda>u. {e \<in> set (entries (adj m ! u)). (\<lambda>(v, b). int u < v) e}"
  let ?L = "\<lambda>u. {e \<in> set (entries (adj m ! u)). (\<lambda>(v, b). v < int u) e}"
  have U: "(\<Sum>u\<leftarrow>[0..<?n]. \<Sum>(v, b)\<leftarrow>upper_entries m u. h u v b)
          = (\<Sum>u\<in>{0..<?n}. \<Sum>(v, b)\<in>?U u. h u v b)" for h :: "nat \<Rightarrow> int \<Rightarrow> 'b \<Rightarrow> 'a"
    unfolding upper_entries_def interv_sum_list_conv_sum_set_nat
    using assms(1) by (intro sum.cong refl sum_list_entries_set sorted_uniqueD) simp_all
  have L: "(\<Sum>u\<leftarrow>[0..<?n]. \<Sum>(v, b)\<leftarrow>lower_entries m u. h u v b)
          = (\<Sum>u\<in>{0..<?n}. \<Sum>(v, b)\<in>?L u. h u v b)" for h :: "nat \<Rightarrow> int \<Rightarrow> 'b \<Rightarrow> 'a"
    unfolding lower_entries_def interv_sum_list_conv_sum_set_nat
    using assms(1) by (intro sum.cong refl sum_list_entries_set sorted_uniqueD) simp_all
  have "(\<Sum>u\<in>{0..<?n}. \<Sum>(v, b)\<in>?U u. g u (nat v) b)
          = (\<Sum>(u, v, b)\<in>(SIGMA u:{0..<?n}. ?U u). g u (nat v) b)"
    by (subst sum.Sigma) (auto simp: case_prod_unfold)
  also have "\<dots> = (\<Sum>(u, v, b)\<in>(SIGMA u:{0..<?n}. ?L u). g (nat v) u b)"
    by (rule sum.reindex_bij_witness
          [where i = "\<lambda>(u, v, b). (nat v, int u, b)" and j = "\<lambda>(u, v, b). (nat v, int u, b)"])
       (use assms(2) in \<open>auto dest: symmetric_storageD\<close>)
  also have "\<dots> = (\<Sum>u\<in>{0..<?n}. \<Sum>(v, b)\<in>?L u. g (nat v) u b)"
    by (subst sum.Sigma) (auto simp: case_prod_unfold)
  finally show ?thesis
    unfolding U [of "\<lambda>u v b. g u (nat v) b"] L [of "\<lambda>u v b. g (nat v) u b"] .
qed


lemma sum_list_concat_map:
  "sum_list (concat xss) = sum_list (map sum_list xss)"
  for xss :: "'a::monoid_add list list"
  by (induction xss) simp_all

lemma stored_pairs_sum:
  assumes "matching_sizes m" "sorted_unique m"
  shows "(\<Sum>(u, v)\<leftarrow>stored_pairs m. quadratic m u v * sample ! nat u * sample ! nat v)
       = (\<Sum>u\<leftarrow>[0..<length (adj m)]. \<Sum>(v, b)\<leftarrow>upper_entries m u.
            b * sample ! u * sample ! nat v)"
proof -
  have row: "(\<Sum>v\<leftarrow>filter (\<lambda>v. int u < v) (neighbors (adj m ! u)).
                quadratic m (int u) v * sample ! u * sample ! nat v)
           = (\<Sum>(v, b)\<leftarrow>upper_entries m u. b * sample ! u * sample ! nat v)"
    if u: "u < length (adj m)" for u
  proof -
    let ?nb = "adj m ! u"
    have sorted: "sorted_wrt (<) (neighbors ?nb)"
      using assms(2) u by (rule sorted_uniqueD)
    have ns: "neighbors ?nb = map fst (entries ?nb)"
      using matching_sizesD(2) [OF assms(1) u] by (simp add: map_fst_entries)
    have "filter (\<lambda>v. int u < v) (neighbors ?nb) = map fst (upper_entries m u)"
      by (subst ns) (simp add: upper_entries_def filter_map comp_def case_prod_unfold)
    then have "(\<Sum>v\<leftarrow>filter (\<lambda>v. int u < v) (neighbors ?nb).
                  quadratic m (int u) v * sample ! u * sample ! nat v)
             = (\<Sum>e\<leftarrow>upper_entries m u.
                  quadratic m (int u) (fst e) * sample ! u * sample ! nat (fst e))"
      by (simp add: comp_def)
    also have "\<dots> = (\<Sum>e\<leftarrow>upper_entries m u. snd e * sample ! u * sample ! nat (fst e))"
    proof (rule arg_cong [where f = sum_list], rule map_cong [OF refl])
      fix e assume "e \<in> set (upper_entries m u)"
      then have "(fst e, snd e) \<in> set (entries ?nb)"
        by (simp add: upper_entries_def)
      then have "quadratic m (int u) (fst e) = snd e"
        using get_nb_stored [OF sorted] by (simp add: quadratic_def)
      then show "quadratic m (int u) (fst e) * sample ! u * sample ! nat (fst e)
                   = snd e * sample ! u * sample ! nat (fst e)"
        by simp
    qed
    finally show ?thesis by (simp add: case_prod_unfold)
  qed
  have "(\<Sum>(u, v)\<leftarrow>stored_pairs m. quadratic m u v * sample ! nat u * sample ! nat v)
          = (\<Sum>u\<leftarrow>[0..<length (adj m)]. \<Sum>v\<leftarrow>filter (\<lambda>v. int u < v) (neighbors (adj m ! u)).
               quadratic m (int u) v * sample ! u * sample ! nat v)"
    using matching_sizesD(1) [OF assms(1)]
    by (simp add: stored_pairs_def sum_list_concat_map comp_def map_concat)
  also have "\<dots> = (\<Sum>u\<leftarrow>[0..<length (adj m)]. \<Sum>(v, b)\<leftarrow>upper_entries m u.
                       b * sample ! u * sample ! nat v)"
    by (rule arg_cong [where f = sum_list], rule map_cong [OF refl]) (simp add: row)
  finally show ?thesis .
qed

lemma energy_lower:
  assumes "matching_sizes m" "sorted_unique m" "symmetric_storage m"
  shows "energy m sample =
     offset m + (\<Sum>u\<leftarrow>[0..<num_variables m]. linear m (int u) * sample ! u
        + (\<Sum>(v, b)\<leftarrow>lower_entries m u. sample ! u * sample ! nat v * b))"
  unfolding energy_sum
  by (intro arg_cong2 [where f = "(+)"] refl arg_cong [where f = sum_list] map_cong)
     (use assms matching_sizesD(1) [OF assms(1)] in \<open>simp_all add: lower_takeWhile mult.commute\<close>)

lemma energy_stored_pairs:
  assumes "matching_sizes m" "sorted_unique m" "symmetric_storage m"
  shows "energy m sample =
           offset m
           + (\<Sum>u\<leftarrow>[0..<num_variables m]. linear m (int u) * sample ! u)
           + (\<Sum>(u, v)\<leftarrow>stored_pairs m. quadratic m u v * sample ! nat u * sample ! nat v)"
proof -
  let ?n = "num_variables m"
  have n: "length (adj m) = ?n"
    using assms(1) by (rule matching_sizesD)
  have "energy m sample = offset m + (\<Sum>u\<leftarrow>[0..<?n]. linear m (int u) * sample ! u)
        + (\<Sum>u\<leftarrow>[0..<?n]. \<Sum>(v, b)\<leftarrow>lower_entries m u. sample ! u * sample ! nat v * b)"
    by (simp add: energy_lower [OF assms] sum_list_addf add.assoc)
  also have "(\<Sum>u\<leftarrow>[0..<?n]. \<Sum>(v, b)\<leftarrow>lower_entries m u. sample ! u * sample ! nat v * b)
        = (\<Sum>u\<leftarrow>[0..<?n]. \<Sum>(v, b)\<leftarrow>upper_entries m u. b * sample ! u * sample ! nat v)"
    using lower_upper_swap [OF assms(2,3), of "\<lambda>u v b. b * sample ! u * sample ! v"]
    by (simp add: n mult_ac)
  also have "\<dots> = (\<Sum>(u, v)\<leftarrow>stored_pairs m. quadratic m u v * sample ! nat u * sample ! nat v)"
    using stored_pairs_sum [OF assms(1,2), of sample] by (simp add: n)
  finally show ?thesis .
qed

text \<open>
  C1. For a model whose neighbourhoods are sorted and unique and stored symmetrically, and
  a sample as long as the model has variables, \<^verbatim>\<open>energy(sample)\<close> is the offset, plus
  the sum of \<open>linear(u) * x_u\<close> over the variables, plus the sum of
  \<open>quadratic(u,v) * x_u * x_v\<close> over the stored pairs with \<open>u < v\<close>. It is computed
  as the sum over \<open>u\<close> of the linear term and of the terms of \<open>u\<close>'s neighbours
  \<open>v < u\<close> (second equation). A model is a state whose vectors have matching sizes.
\<close>

theorem energy_formula:
  assumes "matching_sizes m" "sorted_unique m" "symmetric_storage m"
    and "length sample = num_variables m"
  shows "energy m sample =
           offset m
           + (\<Sum>u\<leftarrow>[0..<num_variables m]. linear m (int u) * sample ! u)
           + (\<Sum>(u, v)\<leftarrow>stored_pairs m. quadratic m u v * sample ! nat u * sample ! nat v)
       \<and> energy m sample =
           offset m
           + (\<Sum>u\<leftarrow>[0..<num_variables m]. linear m (int u) * sample ! u
                + (\<Sum>(v, b)\<leftarrow>lower_entries m u. sample ! u * sample ! nat v * b))"
  using energy_stored_pairs [OF assms(1-3), of sample] energy_lower [OF assms(1-3), of sample]
  by simp

theorem energy_formula_witness:
  "matching_sizes (bqm5 BINARY) \<and> sorted_unique (bqm5 BINARY) \<and> symmetric_storage (bqm5 BINARY)
   \<and> length [1, 0, 1, 1, 0 :: rat] = num_variables (bqm5 BINARY)
   \<and> energy (bqm5 BINARY) [1, 0, 1, 1, 0] =
        offset (bqm5 BINARY)
        + (\<Sum>u\<leftarrow>[0..<num_variables (bqm5 BINARY)].
             linear (bqm5 BINARY) (int u) * [1, 0, 1, 1, 0] ! u)
        + (\<Sum>(u, v)\<leftarrow>stored_pairs (bqm5 BINARY).
             quadratic (bqm5 BINARY) u v * [1, 0, 1, 1, 0] ! nat u * [1, 0, 1, 1, 0] ! nat v)
   \<and> energy (bqm5 BINARY) [1, 0, 1, 1, 0] = - 4 / 5"
proof -
  have n: "length [1, 0, 1, 1, 0 :: rat] = num_variables (bqm5 BINARY)"
    by (simp add: bqm5_def num_variables_def)
  have e: "energy (bqm5 BINARY) [1, 0, 1, 1, 0] = - 4 / 5"
    by code_simp
  show ?thesis
    using energy_formula [of "bqm5 BINARY" "[1, 0, 1, 1, 0]"] test_models_invariants(3) [of BINARY]
      n e
    by simp
qed

section \<open>Energy across the two representations\<close>

lemma no_self_loopsD:
  "no_self_loops m \<Longrightarrow> u < length (adj m) \<Longrightarrow> (v, b) \<in> set (entries (adj m ! u)) \<Longrightarrow> v \<noteq> int u"
  by (auto simp: no_self_loops_def list_all_iff entries_def dest: set_zip_leftD)

lemma sum_list_filter_split:
  "sum_list (map f xs) = sum_list (map f (filter P xs)) + sum_list (map f (filter (\<lambda>x. \<not> P x) xs))"
  for f :: "'a \<Rightarrow> 'c::comm_monoid_add"
  by (induction xs) (simp_all add: ac_simps)

lemma entries_split:
  fixes f :: "int \<times> 'b \<Rightarrow> 'c::comm_monoid_add"
  assumes "no_self_loops m" "u < length (adj m)"
  shows "sum_list (map f (entries (adj m ! u)))
           = sum_list (map f (lower_entries m u)) + sum_list (map f (upper_entries m u))"
proof -
  have "filter (\<lambda>e. \<not> (case e of (v, b) \<Rightarrow> v < int u)) (entries (adj m ! u)) = upper_entries m u"
    unfolding upper_entries_def
    using no_self_loopsD [OF assms] by (intro filter_cong refl) fastforce
  then show ?thesis
    using sum_list_filter_split [of f "entries (adj m ! u)" "\<lambda>(v, b). v < int u"]
    by (simp add: lower_entries_def)
qed

lemma row_sums_lower:
  fixes h :: "nat \<Rightarrow> 'b::field_char_0"
  assumes "matching_sizes m" "sorted_unique m" "symmetric_storage m" "no_self_loops m"
  shows "(\<Sum>u\<leftarrow>[0..<length (adj m)]. sum_list (quadratic_biases (adj m ! u)) * h u)
       = (\<Sum>u\<leftarrow>[0..<length (adj m)]. \<Sum>(v, b)\<leftarrow>lower_entries m u. b * (h u + h (nat v)))"
proof -
  let ?n = "length (adj m)"
  have "sum_list (quadratic_biases (adj m ! u)) * h u
          = (\<Sum>(v, b)\<leftarrow>lower_entries m u. b * h u) + (\<Sum>(v, b)\<leftarrow>upper_entries m u. b * h u)"
    if u: "u < ?n" for u
  proof -
    have "quadratic_biases (adj m ! u) = map snd (entries (adj m ! u))"
      using matching_sizesD(2) [OF assms(1) u] by (simp add: entries_def)
    then have "sum_list (quadratic_biases (adj m ! u)) * h u
                 = sum_list (map (\<lambda>(v, b). b * h u) (entries (adj m ! u)))"
      by (simp add: sum_list_mult_const [symmetric] comp_def case_prod_unfold)
    then show ?thesis
      using entries_split [OF assms(4) u, of "\<lambda>(v, b). b * h u"] by simp
  qed
  then have "(\<Sum>u\<leftarrow>[0..<?n]. sum_list (quadratic_biases (adj m ! u)) * h u)
          = (\<Sum>u\<leftarrow>[0..<?n]. (\<Sum>(v, b)\<leftarrow>lower_entries m u. b * h u)
                               + (\<Sum>(v, b)\<leftarrow>upper_entries m u. b * h u))"
    by (intro arg_cong [where f = sum_list] map_cong refl) simp
  also have "\<dots> = (\<Sum>u\<leftarrow>[0..<?n]. \<Sum>(v, b)\<leftarrow>lower_entries m u. b * h u)
                  + (\<Sum>u\<leftarrow>[0..<?n]. \<Sum>(v, b)\<leftarrow>upper_entries m u. b * h u)"
    by (simp add: sum_list_addf)
  also have "(\<Sum>u\<leftarrow>[0..<?n]. \<Sum>(v, b)\<leftarrow>upper_entries m u. b * h u)
           = (\<Sum>u\<leftarrow>[0..<?n]. \<Sum>(v, b)\<leftarrow>lower_entries m u. b * h (nat v))"
    using lower_upper_swap [OF assms(2,3), of "\<lambda>u v b. b * h u"] by simp
  also have "(\<Sum>u\<leftarrow>[0..<?n]. \<Sum>(v, b)\<leftarrow>lower_entries m u. b * h u)
                  + (\<Sum>u\<leftarrow>[0..<?n]. \<Sum>(v, b)\<leftarrow>lower_entries m u. b * h (nat v))
           = (\<Sum>u\<leftarrow>[0..<?n]. \<Sum>(v, b)\<leftarrow>lower_entries m u. b * (h u + h (nat v)))"
    by (simp add: sum_list_addf [symmetric] case_prod_unfold algebra_simps)
  finally show ?thesis .
qed


lemma entries_scale_row:
  "entries (scale_row c nb) = map (\<lambda>(v, b). (v, b * c)) (entries nb)"
  by (simp add: entries_def scale_row_def zip_map2 case_prod_unfold)

lemma takeWhile_scaled:
  "takeWhile (\<lambda>(v, b). P v) (map (\<lambda>(v, b). (v, b * c)) es)
     = map (\<lambda>(v, b). (v, b * c)) (takeWhile (\<lambda>(v, b). P v) es)"
  by (simp add: takeWhile_map comp_def case_prod_unfold)

lemma energy_vartype_update:
  "energy (m\<lparr>vartype := vt\<rparr>) y = energy m y"
  by (simp add: energy_def linear_def num_variables_def)

lemma energy_converted:
  fixes m :: "'b::field_char_0 BinaryQuadraticModel"
  assumes "matching_sizes m" "sorted_unique m" "symmetric_storage m" "no_self_loops m"
  shows "energy (converted mp m) y =
     offset m
     + (\<Sum>u\<leftarrow>[0..<num_variables m].
          linear m (int u) * (lin_offset_mp mp + lin_mp mp * y ! u))
     + (\<Sum>u\<leftarrow>[0..<num_variables m]. \<Sum>(v, b)\<leftarrow>lower_entries m u.
          b * ((quad_offset_mp mp + lin_quad_mp mp * y ! u)
               + (quad_offset_mp mp + lin_quad_mp mp * y ! nat v)
               + quad_mp mp * y ! u * y ! nat v))"
proof -
  let ?m' = "converted mp m"
  let ?n = "num_variables m"
  let ?S = "\<lambda>u. sum_list (quadratic_biases (adj m ! u))"
  let ?h = "\<lambda>u. quad_offset_mp mp + lin_quad_mp mp * y ! u"
  have n: "length (adj m) = ?n" "length (linear_biases m) = ?n"
    using assms(1) by (simp_all add: matching_sizesD num_variables_def)
  have n': "num_variables ?m' = ?n"
    by (simp add: num_variables_def converted_def)
  have off: "offset ?m' = offset m + (\<Sum>u\<leftarrow>[0..<?n]. converted_offset mp m u)"
    by (simp add: converted_def num_variables_def)
  have lin: "linear ?m' (int u) = converted_linear mp m u" if "u < ?n" for u
    using that by (simp add: linear_def converted_def num_variables_def)
  have low: "takeWhile (\<lambda>(v, b). 0 \<le> v \<and> v < int u) (entries (adj ?m' ! u))
               = map (\<lambda>(v, b). (v, b * quad_mp mp)) (lower_entries m u)" if "u < ?n" for u
  proof -
    have "entries (adj ?m' ! u) = map (\<lambda>(v, b). (v, b * quad_mp mp)) (entries (adj m ! u))"
      using that n by (simp add: converted_def entries_scale_row)
    then show ?thesis
      using takeWhile_scaled [of "\<lambda>v. 0 \<le> v \<and> v < int u" "quad_mp mp" "entries (adj m ! u)"]
        lower_takeWhile [OF assms(1,2,3), of u] that n
      by simp
  qed
  have "energy ?m' y = offset ?m'
      + (\<Sum>u\<leftarrow>[0..<?n]. y ! u * converted_linear mp m u
           + (\<Sum>(v, b)\<leftarrow>map (\<lambda>(v, b). (v, b * quad_mp mp)) (lower_entries m u).
                y ! u * y ! nat v * b))"
    unfolding energy_sum n'
    by (intro arg_cong2 [where f = "(+)"] refl arg_cong [where f = sum_list] map_cong)
       (simp_all add: lin low)
  also have "\<dots> = offset m
      + (\<Sum>u\<leftarrow>[0..<?n]. converted_offset mp m u + y ! u * converted_linear mp m u)
      + (\<Sum>u\<leftarrow>[0..<?n]. \<Sum>(v, b)\<leftarrow>lower_entries m u. b * (quad_mp mp * y ! u * y ! nat v))"
    by (simp add: off sum_list_addf comp_def case_prod_unfold algebra_simps)
  also have "(\<Sum>u\<leftarrow>[0..<?n]. converted_offset mp m u + y ! u * converted_linear mp m u)
      = (\<Sum>u\<leftarrow>[0..<?n]. linear m (int u) * (lin_offset_mp mp + lin_mp mp * y ! u))
        + (\<Sum>u\<leftarrow>[0..<?n]. ?S u * ?h u)"
    by (simp add: sum_list_addf [symmetric] converted_offset_def converted_linear_def linear_def
          algebra_simps)
  also have "(\<Sum>u\<leftarrow>[0..<?n]. ?S u * ?h u)
      = (\<Sum>u\<leftarrow>[0..<?n]. \<Sum>(v, b)\<leftarrow>lower_entries m u. b * (?h u + ?h (nat v)))"
    using row_sums_lower [OF assms, of ?h] by (simp add: n)
  finally show ?thesis
    by (simp add: sum_list_addf [symmetric] case_prod_unfold algebra_simps)
qed


lemma energy_binary_spin_pointwise:
  fixes m :: "'b::field_char_0 BinaryQuadraticModel"
  assumes "matching_sizes m" "sorted_unique m" "symmetric_storage m" "no_self_loops m"
    and s: "\<And>u. u < num_variables m \<Longrightarrow> s ! u = 2 * x ! u - 1"
  shows "energy (converted to_spin_mp m) s = energy m x"
    and "energy (converted to_binary_mp m) x = energy m s"
proof -
  let ?n = "num_variables m"
  have n: "length (adj m) = ?n"
    using assms(1) by (rule matching_sizesD)
  have sv: "s ! nat v = 2 * x ! nat v - 1" if "u < ?n" "(v, b) \<in> set (lower_entries m u)" for u v b
    using that symmetric_storageD(2) [OF assms(3), of u v b] n
    by (intro s) (simp add: lower_entries_def)
  have "energy (converted to_spin_mp m) s =
     offset m + (\<Sum>u\<leftarrow>[0..<?n]. linear m (int u) * x ! u)
     + (\<Sum>u\<leftarrow>[0..<?n]. \<Sum>(v, b)\<leftarrow>lower_entries m u. x ! u * x ! nat v * b)"
    unfolding energy_converted [OF assms(1-4)]
    by (intro arg_cong2 [where f = "(+)"] refl arg_cong [where f = sum_list] map_cong)
       (auto simp: s sv to_spin_mp_def field_simps)
  then show "energy (converted to_spin_mp m) s = energy m x"
    by (simp add: energy_lower [OF assms(1-3)] sum_list_addf add.assoc)
  have "energy (converted to_binary_mp m) x =
     offset m + (\<Sum>u\<leftarrow>[0..<?n]. linear m (int u) * s ! u)
     + (\<Sum>u\<leftarrow>[0..<?n]. \<Sum>(v, b)\<leftarrow>lower_entries m u. s ! u * s ! nat v * b)"
    unfolding energy_converted [OF assms(1-4)]
    by (intro arg_cong2 [where f = "(+)"] refl arg_cong [where f = sum_list] map_cong)
       (auto simp: s sv to_binary_mp_def field_simps)
  then show "energy (converted to_binary_mp m) x = energy m s"
    by (simp add: energy_lower [OF assms(1-3)] sum_list_addf add.assoc)
qed

lemma energy_binary_spin:
  fixes m :: "'b::field_char_0 BinaryQuadraticModel"
  assumes "matching_sizes m" "sorted_unique m" "symmetric_storage m" "no_self_loops m"
    and len: "length x = num_variables m"
  shows "energy (converted to_spin_mp m) (map (\<lambda>xi. 2 * xi - 1) x) = energy m x"
    and "energy (converted to_binary_mp m) x = energy m (map (\<lambda>xi. 2 * xi - 1) x)"
  using len by (simp_all add: energy_binary_spin_pointwise [OF assms(1-4)])

text \<open>
  C4, for the models that satisfy the invariants of the data model (vectors of matching
  sizes, sorted unique neighbourhoods, symmetric storage, and interactions between distinct
  variables only). For such a \<^verbatim>\<open>BINARY\<close> model and a 0/1 sample \<open>x\<close> as long as the
  model has variables, \<^verbatim>\<open>change_vartype(SPIN)\<close> returns normally and the energy of \<open>x\<close>
  on the model equals the energy, on the converted model, of the sample \<open>2 * x - 1\<close>. For
  such a \<^verbatim>\<open>SPIN\<close> model, \<^verbatim>\<open>change_vartype(BINARY)\<close> returns normally and the energy
  of \<open>2 * x - 1\<close> on the model equals the energy of \<open>x\<close> on the converted model. Biases
  are exact here.
\<close>

theorem energy_cross_representation:
  fixes m :: "'b::field_char_0 BinaryQuadraticModel"
  assumes "matching_sizes m" "sorted_unique m" "symmetric_storage m" "no_self_loops m"
    and "length x = num_variables m" and "list_all (\<lambda>xi. xi = 0 \<or> xi = 1) x"
  shows "(vartype m = BINARY \<longrightarrow>
            (case change_vartype m SPIN of
               Inl e \<Rightarrow> False
             | Inr m' \<Rightarrow> energy m x = energy m' (map (\<lambda>xi. 2 * xi - 1) x)))
       \<and> (vartype m = SPIN \<longrightarrow>
            (case change_vartype m BINARY of
               Inl e \<Rightarrow> False
             | Inr m' \<Rightarrow> energy m (map (\<lambda>xi. 2 * xi - 1) x) = energy m' x))"
  using assms(1) energy_binary_spin [OF assms(1-5)]
  by (simp add: change_vartype_converted energy_vartype_update)

theorem energy_cross_representation_witness:
  "matching_sizes (bqm5 BINARY) \<and> sorted_unique (bqm5 BINARY) \<and> symmetric_storage (bqm5 BINARY)
   \<and> no_self_loops (bqm5 BINARY) \<and> length [1, 0, 1, 1, 0 :: rat] = num_variables (bqm5 BINARY)
   \<and> list_all (\<lambda>xi. xi = 0 \<or> xi = 1) [1, 0, 1, 1, 0 :: rat]
   \<and> vartype (bqm5 BINARY) = BINARY
   \<and> (case change_vartype (bqm5 BINARY) SPIN of
         Inl e \<Rightarrow> False
       | Inr m' \<Rightarrow> energy (bqm5 BINARY) [1, 0, 1, 1, 0]
                     = energy m' (map (\<lambda>xi. 2 * xi - 1) [1, 0, 1, 1, 0]))
   \<and> matching_sizes (bqm5 SPIN) \<and> sorted_unique (bqm5 SPIN) \<and> symmetric_storage (bqm5 SPIN)
   \<and> no_self_loops (bqm5 SPIN) \<and> length [1, 0, 1, 1, 0 :: rat] = num_variables (bqm5 SPIN)
   \<and> vartype (bqm5 SPIN) = SPIN
   \<and> (case change_vartype (bqm5 SPIN) BINARY of
         Inl e \<Rightarrow> False
       | Inr m' \<Rightarrow> energy (bqm5 SPIN) (map (\<lambda>xi. 2 * xi - 1) [1, 0, 1, 1, 0])
                     = energy m' [1, 0, 1, 1, 0])"
proof -
  have v: "vartype (bqm5 vt) = vt" "num_variables (bqm5 vt) = 5" for vt
    by (simp_all add: bqm5_def num_variables_def)
  show ?thesis
    using energy_cross_representation [of "bqm5 BINARY" "[1, 0, 1, 1, 0]"]
      energy_cross_representation [of "bqm5 SPIN" "[1, 0, 1, 1, 0]"]
      test_models_invariants(3) [of BINARY] test_models_invariants(3) [of SPIN]
    by (simp add: v)
qed

text \<open>
  C4 for every \<^verbatim>\<open>BINARY\<close> model fails. \<^verbatim>\<open>energy\<close> stops its walk of a
  neighbourhood at the first neighbour that is not less than \<open>u\<close>, which finds every
  lower neighbour only where the keys are sorted, while \<^verbatim>\<open>change_vartype\<close> converts
  every entry. On \<open>bqm1_mapped\<close>, whose neighbourhood of variable 2 has the keys
  \<open>[1, 7, 0]\<close>, the sample of eight zeros has energy \<open>-39/5\<close>, and on the model
  converted to \<^verbatim>\<open>SPIN\<close> the sample of eight \<open>-1\<close> has energy \<open>-191/20\<close>.
\<close>

theorem energy_cross_representation_unsorted:
  "add_bqm_mapping bqm1 bqm0 [7, 2, 0] = Inr bqm1_mapped
   \<and> vartype bqm1_mapped = BINARY
   \<and> length [0, 0, 0, 0, 0, 0, 0, 0 :: rat] = num_variables bqm1_mapped
   \<and> list_all (\<lambda>xi. xi = 0 \<or> xi = 1) [0, 0, 0, 0, 0, 0, 0, 0 :: rat]
   \<and> change_vartype bqm1_mapped SPIN = Inr bqm1_mapped_spin
   \<and> map (\<lambda>xi. 2 * xi - 1) [0, 0, 0, 0, 0, 0, 0, 0 :: rat] = [-1, -1, -1, -1, -1, -1, -1, -1]
   \<and> energy bqm1_mapped [0, 0, 0, 0, 0, 0, 0, 0] = -39/5
   \<and> energy bqm1_mapped_spin [-1, -1, -1, -1, -1, -1, -1, -1] = -191/20
   \<and> energy bqm1_mapped [0, 0, 0, 0, 0, 0, 0, 0]
       \<noteq> energy bqm1_mapped_spin (map (\<lambda>xi. 2 * xi - 1) [0, 0, 0, 0, 0, 0, 0, 0])"
  by code_simp

section \<open>Dense-matrix ingestion\<close>

lemma append_entries_simps:
  "append_entries nb [] = nb"
  "append_entries (append_entries nb xs) ys = append_entries nb (xs @ ys)"
  "emplace_back nb v b = append_entries nb [(v, b)]"
  by (simp_all add: append_entries_def)

lemma appended_Nil: "appended m (\<lambda>w. []) = m"
  by (simp add: appended_def append_entries_simps map_nth)

lemma appended_emplace_back:
  assumes "u < length (adj m)"
  shows "adj_emplace_back (appended m f) u v b = appended m (f(u := f u @ [(v, b)]))"
proof -
  have "(map (\<lambda>w. append_entries (adj m ! w) (f w)) [0..<length (adj m)])
           [u := append_entries (adj m ! u) (f u @ [(v, b)])]
        = map (\<lambda>w. append_entries (adj m ! w) ((f(u := f u @ [(v, b)])) w)) [0..<length (adj m)]"
    using assms by (intro nth_equalityI) (simp_all add: nth_list_update)
  with assms show ?thesis
    by (simp add: adj_emplace_back_def appended_def append_entries_simps)
qed

lemma combined_commute: "combined dense n u v = combined dense n v u"
  by (simp add: combined_def add.commute)

lemma combined_entries_append:
  "combined_entries dense n w (ps @ qs) = combined_entries dense n w ps @ combined_entries dense n w qs"
  by (simp add: combined_entries_def)

lemma combined_entries_single:
  "combined_entries dense n w [p] = (if combined dense n w p = 0 then [] else [(int p, combined dense n w p)])"
  by (simp add: combined_entries_def)


lemma dense_inner_loop:
  assumes "u < n" "n \<le> length (adj m)" "Suc u \<le> j" "j \<le> n"
  shows "fold (\<lambda>v m.
                 (let qbias = dense ! (u * n + v) + dense ! (v * n + u)
                  in if qbias \<noteq> 0
                     then adj_emplace_back (adj_emplace_back m u (int v) qbias) v (int u) qbias
                     else m))
              [Suc u..<j] (appended m f)
       = appended m (\<lambda>w. f w @ (if w = u then combined_entries dense n u [Suc u..<j]
                                  else if u < w \<and> w < j then combined_entries dense n w [u]
                                  else []))"
  using assms(3,4)
proof (induction j rule: nat_induct_at_least)
  case base
  have "(\<lambda>w. f w @ (if w = u then combined_entries dense n u [Suc u..<Suc u]
                      else if u < w \<and> w < Suc u then combined_entries dense n w [u]
                      else [])) = f"
    by (auto simp: fun_eq_iff combined_entries_def)
  then show ?case by simp
next
  case (Suc j)
  let ?F = "\<lambda>j w. f w @ (if w = u then combined_entries dense n u [Suc u..<j]
                          else if u < w \<and> w < j then combined_entries dense n w [u]
                          else [])"
  let ?body = "\<lambda>v m.
                 (let qbias = dense ! (u * n + v) + dense ! (v * n + u)
                  in if qbias \<noteq> 0
                     then adj_emplace_back (adj_emplace_back m u (int v) qbias) v (int u) qbias
                     else m)"
  from Suc.prems Suc.hyps assms have j: "j < length (adj m)" "u < length (adj m)" "u < j"
    by simp_all
  have "fold ?body [Suc u..<Suc j] (appended m f) = ?body j (fold ?body [Suc u..<j] (appended m f))"
    using Suc.hyps by simp
  also have "fold ?body [Suc u..<j] (appended m f) = appended m (?F j)"
    using Suc.IH Suc.prems by simp
  also have "?body j (appended m (?F j)) = appended m (?F (Suc j))"
  proof (cases "combined dense n u j = 0")
    case True
    then have "?F (Suc j) = ?F j"
      using j Suc.hyps
      by (auto simp: fun_eq_iff combined_entries_append combined_entries_single combined_commute
            less_Suc_eq)
    with True show ?thesis
      by (simp add: combined_def Let_def)
  next
    case False
    let ?q = "combined dense n u j"
    have "?body j (appended m (?F j))
            = adj_emplace_back (adj_emplace_back (appended m (?F j)) u (int j) ?q) j (int u) ?q"
      using False by (simp add: combined_def Let_def)
    also have "\<dots> = appended m (((?F j)(u := ?F j u @ [(int j, ?q)]))
                                   (j := ((?F j)(u := ?F j u @ [(int j, ?q)])) j @ [(int u, ?q)]))"
      using j by (simp only: appended_emplace_back)
    also have "((?F j)(u := ?F j u @ [(int j, ?q)]))
                 (j := ((?F j)(u := ?F j u @ [(int j, ?q)])) j @ [(int u, ?q)]) = ?F (Suc j)"
      using j False Suc.hyps
      by (auto simp: fun_eq_iff combined_entries_append combined_entries_single
            combined_commute [of dense n j u] less_Suc_eq)
    finally show ?thesis .
  qed
  finally show ?case .
qed


lemma dense_outer_loop:
  assumes "n \<le> length (adj m)" "k \<le> n"
  shows "fold (\<lambda>u m.
             fold (\<lambda>v m.
                     (let qbias = dense ! (u * n + v) + dense ! (v * n + u)
                      in if qbias \<noteq> 0
                         then adj_emplace_back (adj_emplace_back m u (int v) qbias) v (int u) qbias
                         else m))
                  [Suc u..<n] m)
          [0..<k] m
       = appended m (\<lambda>w. if w < n
                           then combined_entries dense n w
                                  (if w < k then [0..<w] @ [Suc w..<n] else [0..<k])
                           else [])"
  using assms(2)
proof (induction k)
  case 0
  have "(\<lambda>w. if w < n then combined_entries dense n w (if w < 0 then [0..<w] @ [Suc w..<n] else [0..<0])
             else []) = (\<lambda>w. [])"
    by (auto simp: fun_eq_iff combined_entries_def)
  then show ?case by (simp add: appended_Nil)
next
  case (Suc k)
  let ?F = "\<lambda>k w. if w < n
                   then combined_entries dense n w
                          (if w < k then [0..<w] @ [Suc w..<n] else [0..<k])
                   else []"
  let ?inner = "\<lambda>u m.
             fold (\<lambda>v m.
                     (let qbias = dense ! (u * n + v) + dense ! (v * n + u)
                      in if qbias \<noteq> 0
                         then adj_emplace_back (adj_emplace_back m u (int v) qbias) v (int u) qbias
                         else m))
                  [Suc u..<n] m"
  from Suc.prems have k: "k < n" "Suc k \<le> n" by simp_all
  have "fold ?inner [0..<Suc k] m = ?inner k (fold ?inner [0..<k] m)"
    by simp
  also have "fold ?inner [0..<k] m = appended m (?F k)"
    using Suc.IH Suc.prems by simp
  also have "?inner k (appended m (?F k))
       = appended m (\<lambda>w. ?F k w @ (if w = k then combined_entries dense n k [Suc k..<n]
                                     else if k < w \<and> w < n then combined_entries dense n w [k]
                                     else []))"
    using k assms(1) by (intro dense_inner_loop) simp_all
  also have "(\<lambda>w. ?F k w @ (if w = k then combined_entries dense n k [Suc k..<n]
                              else if k < w \<and> w < n then combined_entries dense n w [k]
                              else [])) = ?F (Suc k)"
    using k by (auto simp: fun_eq_iff combined_entries_append less_Suc_eq)
  finally show ?case .
qed

lemma filter_neq_upt:
  "w < n \<Longrightarrow> filter (\<lambda>p. p \<noteq> w) [0..<n] = [0..<w] @ [Suc w..<n]"
proof -
  assume w: "w < n"
  then have "[0..<n] = [0..<w] @ w # [Suc w..<n]"
    by (metis less_imp_le_nat upt_add_eq_append upt_conv_Cons zero_le le_add_diff_inverse)
  then show ?thesis by auto
qed

lemma dense_off_diagonal_appended:
  assumes "n \<le> length (adj m)"
  shows "dense_off_diagonal dense n m = appended m (combined_row dense n)"
proof -
  have "(\<lambda>w. if w < n
             then combined_entries dense n w (if w < n then [0..<w] @ [Suc w..<n] else [0..<n])
             else []) = combined_row dense n"
    by (auto simp: fun_eq_iff combined_row_def filter_neq_upt)
  then show ?thesis
    unfolding dense_off_diagonal_def
    using dense_outer_loop [OF assms, of n dense] by simp
qed


lemma length_append_entries:
  "length (neighbors (append_entries nb es)) = length (neighbors nb) + length es"
  unfolding append_entries_def
  by (induction es arbitrary: nb) (simp_all add: emplace_back_def case_prod_unfold)

lemma appended_changes:
  assumes "w < length (adj m)" "f w \<noteq> []"
  shows "m\<lparr>adj := map (\<lambda>w. append_entries (adj m ! w) (f w)) [0..<length (adj m)]\<rparr> \<noteq> m"
proof
  let ?adj = "map (\<lambda>w. append_entries (adj m ! w) (f w)) [0..<length (adj m)]"
  assume "m\<lparr>adj := ?adj\<rparr> = m"
  then have "adj (m\<lparr>adj := ?adj\<rparr>) ! w = adj m ! w" by simp
  with assms(1) have "append_entries (adj m ! w) (f w) = adj m ! w" by simp
  then have "length (neighbors (append_entries (adj m ! w) (f w))) = length (neighbors (adj m ! w))"
    by simp
  with assms(2) show False by (simp add: length_append_entries)
qed

text \<open>
  C10. On a model that already has an interaction, with \<open>n\<close> within the number of
  variables (the \<^verbatim>\<open>assert\<close>) and \<open>dense\<close> an array of length \<open>n * n\<close>,
  \<^verbatim>\<open>add_quadratic(dense, n)\<close> throws
  \<^verbatim>\<open>std::logic_error("not implemented yet")\<close>, and the model it leaves behind has
  every non-zero combined off-diagonal entry appended to the neighbourhoods of both its
  variables, while linear biases and offset are as before: the diagonal was not applied.
  Where some combined entry is not zero the model differs from the one before the call.
  With the dense array of the test suite on \<open>bqm0\<close> the call fails and leaves
  neighbourhoods that are not sorted.
\<close>

theorem add_quadratic_dense_not_atomic:
  assumes "matching_sizes m" and "\<not> is_linear m" and "0 \<le> n" and "nat n \<le> num_variables m"
    and "length dense = nat n * nat n"
  shows "add_quadratic_dense m dense n =
           Inl (logic_error ''not implemented yet'',
                m\<lparr>adj := map (\<lambda>w. append_entries (adj m ! w) (combined_row dense (nat n) w))
                               [0..<length (adj m)]\<rparr>)
       \<and> ((\<exists>w. combined_row dense (nat n) w \<noteq> []) \<longrightarrow>
            m\<lparr>adj := map (\<lambda>w. append_entries (adj m ! w) (combined_row dense (nat n) w))
                           [0..<length (adj m)]\<rparr> \<noteq> m)"
proof -
  have len: "nat n \<le> length (adj m)"
    using assms(1,4) by (simp add: matching_sizes_def num_variables_def)
  have "add_quadratic_dense m dense n =
          Inl (logic_error ''not implemented yet'', dense_off_diagonal dense (nat n) m)"
    using assms(2,3,4) by (simp add: add_quadratic_dense_def Let_def)
  then have 1: "add_quadratic_dense m dense n =
           Inl (logic_error ''not implemented yet'',
                m\<lparr>adj := map (\<lambda>w. append_entries (adj m ! w) (combined_row dense (nat n) w))
                               [0..<length (adj m)]\<rparr>)"
    by (simp add: dense_off_diagonal_appended [OF len] appended_def)
  have 2: "m\<lparr>adj := map (\<lambda>w. append_entries (adj m ! w) (combined_row dense (nat n) w))
                           [0..<length (adj m)]\<rparr> \<noteq> m"
    if "combined_row dense (nat n) w \<noteq> []" for w
  proof -
    from that have "w < nat n"
      by (simp add: combined_row_def split: if_splits)
    with len have "w < length (adj m)" by simp
    then show ?thesis using that by (rule appended_changes)
  qed
  from 1 2 show ?thesis by blast
qed

theorem add_quadratic_dense_not_atomic_witness:
  "matching_sizes bqm0 \<and> \<not> is_linear bqm0 \<and> (0::int) \<le> 3 \<and> nat 3 \<le> num_variables bqm0
   \<and> length [1, 0, 3, 2, 1, 0, 1, 0, 0 :: rat] = nat 3 * nat 3
   \<and> add_quadratic_dense bqm0 [1, 0, 3, 2, 1, 0, 1, 0, 0] 3 =
        Inl (logic_error ''not implemented yet'',
             bqm0\<lparr>adj := [\<lparr>neighbors = [1, 2, 1, 2], quadratic_biases = [3/2, -2, 2, 4]\<rparr>,
                           \<lparr>neighbors = [0, 2, 0], quadratic_biases = [3/2, 7, 2]\<rparr>,
                           \<lparr>neighbors = [0, 1, 0], quadratic_biases = [-2, 7, 4]\<rparr>]\<rparr>)
   \<and> combined_row [1, 0, 3, 2, 1, 0, 1, 0, 0 :: rat] (nat 3) 0 \<noteq> []
   \<and> bqm0\<lparr>adj := [\<lparr>neighbors = [1, 2, 1, 2], quadratic_biases = [3/2, -2, 2, 4]\<rparr>,
                    \<lparr>neighbors = [0, 2, 0], quadratic_biases = [3/2, 7, 2]\<rparr>,
                    \<lparr>neighbors = [0, 1, 0], quadratic_biases = [-2, 7, 4]\<rparr>]\<rparr> \<noteq> bqm0
   \<and> \<not> sorted_unique
         (bqm0\<lparr>adj := [\<lparr>neighbors = [1, 2, 1, 2], quadratic_biases = [3/2, -2, 2, 4]\<rparr>,
                        \<lparr>neighbors = [0, 2, 0], quadratic_biases = [3/2, 7, 2]\<rparr>,
                        \<lparr>neighbors = [0, 1, 0], quadratic_biases = [-2, 7, 4]\<rparr>]\<rparr>)"
proof -
  let ?Q = "[1, 0, 3, 2, 1, 0, 1, 0, 0 :: rat]"
  have h: "\<not> is_linear bqm0" "nat 3 \<le> num_variables bqm0"
    by (simp_all add: is_linear_def bqm0_def size_nb_def num_variables_def)
  have r: "map (\<lambda>w. append_entries (adj bqm0 ! w) (combined_row ?Q (nat 3) w))
               [0..<length (adj bqm0)]
           = [\<lparr>neighbors = [1, 2, 1, 2], quadratic_biases = [3/2, -2, 2, 4]\<rparr>,
              \<lparr>neighbors = [0, 2, 0], quadratic_biases = [3/2, 7, 2]\<rparr>,
              \<lparr>neighbors = [0, 1, 0], quadratic_biases = [-2, 7, 4]\<rparr>]"
    by code_simp
  have c: "combined_row ?Q (nat 3) 0 \<noteq> []"
    by code_simp
  have u: "\<not> sorted_unique
         (bqm0\<lparr>adj := [\<lparr>neighbors = [1, 2, 1, 2], quadratic_biases = [3/2, -2, 2, 4]\<rparr>,
                        \<lparr>neighbors = [0, 2, 0], quadratic_biases = [3/2, 7, 2]\<rparr>,
                        \<lparr>neighbors = [0, 1, 0], quadratic_biases = [-2, 7, 4]\<rparr>]\<rparr>)"
    by (simp add: sorted_unique_def)
  have z: "(0::int) \<le> 3" "length ?Q = nat 3 * nat 3" by simp_all
  show ?thesis
    using add_quadratic_dense_not_atomic [of bqm0 3 ?Q] test_models_invariants(1) h c u z
    unfolding r by blast
qed

end
